theory Spec2Isabelle
  imports Main "HOL-Library.Sublist"
begin

section \<open>The website component: data model\<close>

text \<open>
  The component is the class \<open>Website\<close> of \<open>serverless.js\<close> with the two operations
  \<open>default\<close> (deploy) and \<open>remove\<close>. Both are sequences of awaited calls to
  collaborators (child components, the AWS helpers of \<open>./utils\<close>, the file system, the
  sub-process runner and the state store). A JavaScript value that may be \<open>undefined\<close> is
  an \<open>option\<close>; a string is truthy when it is present and not empty. The calls that only
  report progress (\<open>context.status\<close>, \<open>context.debug\<close>, \<open>context.output\<close>,
  \<open>console.error\<close>) do not take part in the workflow and are left out.
\<close>

definition truthy :: "string option \<Rightarrow> bool" where
  "truthy v = (case v of None \<Rightarrow> False | Some s \<Rightarrow> s \<noteq> [])"

text \<open>The operator \<open>a || b\<close> on values that are strings or \<open>undefined\<close>.\<close>

definition or_else :: "string option \<Rightarrow> string option \<Rightarrow> string option" where
  "or_else a b = (if truthy a then a else b)"

text \<open>\<open>this.state\<close>: the four fields the component reads and writes.\<close>

record state =
  bucketName :: "string option"
  domain :: "string option"
  region :: "string option"
  url :: "string option"

text \<open>\<open>this.state = {}\<close>\<close>

definition empty_state :: state where
  "empty_state = \<lparr>state.bucketName = None, state.domain = None, state.region = None, state.url = None\<rparr>"

text \<open>\<open>inputs.code\<close> and \<open>inputs\<close> as the caller supplies them; \<open>{}\<close> has every field absent.
  The values of \<open>env\<close> are of any type \<open>'v\<close>; the entries are listed in the order in which
  \<open>for (const e in inputs.env)\<close> enumerates them.\<close>

record code =
  root :: "string option"
  src :: "string option"
  hook :: "string option"

record 'v inputs =
  code :: "code option"
  region :: "string option"
  domain :: "string option"
  env :: "(string \<times> 'v) list option"

text \<open>The \<open>inputs\<close> object after lines 34 to 40 have assigned \<open>code.root\<close>, \<open>code.src\<close>,
  \<open>region\<close> and \<open>bucketName\<close>: these three are strings from then on.\<close>

record 'v config =
  root :: string
  src :: "string option"
  hook :: "string option"
  region :: string
  domain :: "string option"
  bucketName :: string
  env :: "(string \<times> 'v) list option"

text \<open>The object returned by a successful deploy.\<close>

record 'v outputs =
  url :: string
  env :: "(string \<times> 'v) list"
  domain :: "string option"

section \<open>Collaborators\<close>

text \<open>
  Every awaited call to a collaborator is a \<open>call\<close>. An AWS client is identified by the
  region it was constructed with (the credentials come from the context and are the same
  for all of them).
  \<^item> \<open>Load c a\<close>: \<open>this.load(c, a)\<close>;
  \<^item> \<open>DeployBucket a name accelerated region\<close>: calling the child component loaded under
    the alias \<open>a\<close>;
  \<^item> \<open>ConfigureBucketForHosting s3 bucket\<close>, \<open>ConfigureBucketForRedirect s3 bucket target\<close>;
  \<^item> \<open>ConfigureDomainForBucket client domain region action\<close>, where \<open>action\<close> is \<open>None\<close>
    when the fourth argument is omitted;
  \<^item> \<open>WriteFile path content\<close>: \<open>utils.writeFile\<close>;
  \<^item> \<open>Exec command cwd\<close>: the promisified \<open>child_process.exec\<close>;
  \<^item> \<open>Upload a dir\<close>, \<open>RemoveBucket a\<close>: the methods \<open>upload\<close> and \<open>remove\<close> of the child
    component loaded under the alias \<open>a\<close>;
  \<^item> \<open>Save s\<close>: \<open>this.save()\<close> while \<open>this.state\<close> is \<open>s\<close>.

  The helpers of \<open>./utils\<close> are not among the sources, so a call of one of them is kept
  as the call with its arguments. By section 4.3 of the specification
  \<open>configureDomainForBucket\<close> binds the alias record of the domain (an upsert), and unbinds
  it (a delete) when the mode flag is given: a call with the action \<open>None\<close> is a bind, a
  call with the action \<open>DELETE\<close> an unbind.
\<close>

datatype call =
    Load string string
  | DeployBucket string string bool string
  | ConfigureBucketForHosting string string
  | ConfigureBucketForRedirect string string string
  | ConfigureDomainForBucket "string option" string "string option" "string option"
  | WriteFile string string
  | Exec string string
  | Upload string string
  | RemoveBucket string
  | Save state

text \<open>A call resolves with a payload (the \<open>name\<close> of the outputs for \<open>DeployBucket\<close>) or
  rejects with one (the captured standard error, \<open>err.stderr\<close>, for \<open>Exec\<close>).\<close>

datatype reply = Ok string | Fail string

text \<open>What the workflow throws: the rejection of a collaborator, passed on as it is, or
  \<open>new Error(message)\<close>.\<close>

datatype error = Rejected string | Error string

text \<open>
  The host of one run: the collaborators answer each call from a state \<open>'w\<close> of their own,
  \<open>resourceId\<close> is what \<open>this.context.resourceId()\<close> returns, \<open>cwd\<close> what \<open>process.cwd()\<close>
  returns, and \<open>path_resolve\<close>, \<open>path_join\<close> and \<open>JSON_stringify\<close> are the library functions
  \<open>path.resolve\<close>, \<open>path.join\<close> and \<open>JSON.stringify\<close>.
\<close>

record ('w, 'v) host =
  respond :: "'w \<Rightarrow> call \<Rightarrow> reply \<times> 'w"
  resourceId :: string
  cwd :: string
  path_resolve :: "string \<Rightarrow> string"
  path_join :: "string \<Rightarrow> string \<Rightarrow> string"
  JSON_stringify :: "'v \<Rightarrow> string"

text \<open>
  The state of a run: the collaborators' state, the calls made so far with their replies,
  \<open>this.state\<close>, and the state held by the store.
\<close>

record 'w machine =
  world :: 'w
  trace :: "(call \<times> reply) list"
  this_state :: state
  stored :: state

text \<open>A run starts with the state that the store holds loaded into \<open>this.state\<close>.\<close>

definition start :: "'w \<Rightarrow> state \<Rightarrow> 'w machine" where
  "start w s = \<lparr>world = w, trace = [], this_state = s, stored = s\<rparr>"

definition calls :: "'w machine \<Rightarrow> call list" where
  "calls m = map fst (trace m)"

type_synonym ('w, 'a) action = "'w machine \<Rightarrow> (error + 'a) \<times> 'w machine"

text \<open>\<open>await\<close> of one call: the call and its reply are recorded; a rejection is thrown.\<close>

definition perform :: "('w, 'v) host \<Rightarrow> call \<Rightarrow> ('w, string) action" where
  "perform h c m =
     (case respond h (world m) c of
        (r, w') \<Rightarrow>
          (case r of Ok p \<Rightarrow> Inr p | Fail e \<Rightarrow> Inl (Rejected e),
           m\<lparr>world := w', trace := trace m @ [(c, r)]\<rparr>))"

text \<open>Sequencing: a thrown error skips the rest.\<close>

definition andThen :: "('w, 'a) action \<Rightarrow> ('a \<Rightarrow> ('w, 'b) action) \<Rightarrow> ('w, 'b) action" where
  "andThen f g m = (case f m of (Inl e, m') \<Rightarrow> (Inl e, m') | (Inr x, m') \<Rightarrow> g x m')"

definition succeed :: "'a \<Rightarrow> ('w, 'a) action" where
  "succeed x m = (Inr x, m)"

definition throw :: "error \<Rightarrow> ('w, 'a) action" where
  "throw e m = (Inl e, m)"

text \<open>Reading \<open>this.state\<close>, and assigning to it.\<close>

definition with_state :: "(state \<Rightarrow> ('w, 'a) action) \<Rightarrow> ('w, 'a) action" where
  "with_state f m = f (this_state m) m"

definition modify_state :: "(state \<Rightarrow> state) \<Rightarrow> ('w, unit) action" where
  "modify_state f m = (Inr (), m\<lparr>this_state := f (this_state m)\<rparr>)"

text \<open>\<open>try { f } catch (err) { handler }\<close>\<close>

definition try_catch :: "('w, 'a) action \<Rightarrow> (error \<Rightarrow> ('w, 'a) action) \<Rightarrow> ('w, 'a) action" where
  "try_catch f handler m = (case f m of (Inl e, m') \<Rightarrow> handler e m' | (Inr x, m') \<Rightarrow> (Inr x, m'))"

text \<open>\<open>if (v) { body }\<close> for a value that is a string or \<open>undefined\<close>.\<close>

definition when_truthy :: "string option \<Rightarrow> (string \<Rightarrow> ('w, unit) action) \<Rightarrow> ('w, unit) action" where
  "when_truthy v body =
     (case v of None \<Rightarrow> succeed () | Some s \<Rightarrow> if s \<noteq> [] then body s else succeed ())"

text \<open>\<open>err.stderr\<close> inside a template string: the rejection of \<open>exec\<close> carries the captured
  standard error; an error without that property renders as \<open>undefined\<close>.\<close>

fun stderr :: "error \<Rightarrow> string" where
  "stderr (Rejected s) = s"
| "stderr (Error s) = ''undefined''"

text \<open>\<open>await this.save()\<close>: the store takes over \<open>this.state\<close> when the call resolves;
  a rejected \<open>save\<close> leaves the store as it was.\<close>

definition save :: "('w, 'v) host \<Rightarrow> ('w, unit) action" where
  "save h m =
     (case perform h (Save (this_state m)) m of
        (Inl e, m') \<Rightarrow> (Inl e, m')
      | (Inr p, m') \<Rightarrow> (Inr (), m'\<lparr>stored := this_state m'\<rparr>))"

section \<open>Deploy: \<open>Website.default\<close>\<close>

subsection \<open>Lines 34 to 40: defaults\<close>

definition resolve_inputs :: "('w, 'v) host \<Rightarrow> state \<Rightarrow> 'v inputs \<Rightarrow> 'v config" where
  "resolve_inputs h st i =
     (let c = (case inputs.code i of None \<Rightarrow> \<lparr>code.root = None, code.src = None, code.hook = None\<rparr> | Some c \<Rightarrow> c);
          r = (case code.root c of
                 None \<Rightarrow> cwd h
               | Some p \<Rightarrow> if p \<noteq> [] then path_resolve h p else cwd h);
          s = (case code.src c of
                 None \<Rightarrow> None
               | Some p \<Rightarrow> if p \<noteq> [] then Some (path_join h r p) else Some p)
      in \<lparr>config.root = r, config.src = s, config.hook = code.hook c,
          config.region = (case inputs.region i of
                      None \<Rightarrow> ''us-east-1''
                    | Some g \<Rightarrow> if g \<noteq> [] then g else ''us-east-1''),
          config.domain = inputs.domain i,
          config.bucketName =
            (case or_else (state.bucketName st) (or_else (inputs.domain i) (Some (resourceId h))) of
               None \<Rightarrow> resourceId h
             | Some n \<Rightarrow> n),
          config.env = inputs.env i\<rparr>)"

subsection \<open>Lines 45 to 55: the website bucket\<close>

definition provision_website_bucket :: "('w, 'v) host \<Rightarrow> 'v config \<Rightarrow> ('w, string) action" where
  "provision_website_bucket h cfg =
     andThen (perform h (Load ''@serverless/aws-s3'' ''websiteBucket'')) (\<lambda>websiteBucket.
     andThen (perform h (DeployBucket ''websiteBucket''
                (config.bucketName cfg) False (config.region cfg))) (\<lambda>bucketOutputs_name.
     andThen (perform h (ConfigureBucketForHosting
                (config.region cfg) (config.bucketName cfg))) (\<lambda>_.
     succeed bucketOutputs_name)))"

subsection \<open>Lines 57 to 76: the redirect bucket and the alias records of the domain\<close>

definition provision_domain :: "('w, 'v) host \<Rightarrow> 'v config \<Rightarrow> ('w, unit) action" where
  "provision_domain h cfg =
     when_truthy (config.domain cfg) (\<lambda>d.
       andThen (perform h (Load ''@serverless/aws-s3'' ''redirectBucket'')) (\<lambda>redirectBucket.
       andThen (perform h (DeployBucket ''redirectBucket''
                  (''www.'' @ d) False (config.region cfg))) (\<lambda>_.
       andThen (perform h (ConfigureBucketForRedirect
                  (config.region cfg) (''www.'' @ d) d)) (\<lambda>_.
       andThen (perform h (ConfigureDomainForBucket
                  (Some (config.region cfg)) d (Some (config.region cfg)) None)) (\<lambda>_.
       andThen (perform h (ConfigureDomainForBucket
                  (Some (config.region cfg)) (''www.'' @ d) (Some (config.region cfg)) None)) (\<lambda>_.
       succeed ()))))))"

subsection \<open>Lines 78 to 90: a domain of the state that is no longer the requested one\<close>

definition drift_check :: "('w, 'v) host \<Rightarrow> 'v config \<Rightarrow> ('w, unit) action" where
  "drift_check h cfg =
     with_state (\<lambda>st.
      when_truthy (state.domain st) (\<lambda>old.
        if state.domain st \<noteq> config.domain cfg then
          andThen (perform h (ConfigureDomainForBucket
                     (Some (config.region cfg)) old (state.region st) (Some ''DELETE''))) (\<lambda>_.
          andThen (perform h (ConfigureDomainForBucket
                     (Some (config.region cfg)) (''www.'' @ old) (state.region st)
                     (Some ''DELETE''))) (\<lambda>_.
          succeed ()))
        else succeed ()))"

subsection \<open>Lines 93 to 105: the environment bundle\<close>

text \<open>The three conjuncts of the guard of line 93.\<close>

definition env_guard :: "'v config \<Rightarrow> bool" where
  "env_guard cfg =
     ((case config.env cfg of None \<Rightarrow> False | Some e \<Rightarrow> True) \<and>
      (case config.env cfg of None \<Rightarrow> False | Some e \<Rightarrow> length (map fst e) \<noteq> 0) \<and>
      config.root cfg \<noteq> [])"

text \<open>The loop of lines 96 to 101.\<close>

definition env_script :: "('w, 'v) host \<Rightarrow> (string \<times> 'v) list \<Rightarrow> string" where
  "env_script h e =
     foldl (\<lambda>script (k, v). script @ ''window.env.'' @ k @ '' = '' @ JSON_stringify h v @ '';\<newline>'')
       ''window.env = {};\<newline>'' e"

definition env_bundle :: "('w, 'v) host \<Rightarrow> 'v config \<Rightarrow> ('w, unit) action" where
  "env_bundle h cfg =
     (if env_guard cfg then
        andThen (perform h (WriteFile (path_join h (config.root cfg) ''env.js'')
                   (env_script h (case config.env cfg of None \<Rightarrow> [] | Some e \<Rightarrow> e)))) (\<lambda>_.
        succeed ())
      else succeed ())"

subsection \<open>Lines 108 to 121: the build hook\<close>

definition hook_message :: "string \<Rightarrow> string \<Rightarrow> string" where
  "hook_message command err_stderr =
     ''Failed building website via '' @ [CHR 0x22] @ command @ [CHR 0x22] @
     '' due to the following error: '' @ [CHR 0x22] @ err_stderr @ [CHR 0x22]"

definition build_hook :: "('w, 'v) host \<Rightarrow> 'v config \<Rightarrow> ('w, unit) action" where
  "build_hook h cfg =
     when_truthy (config.hook cfg) (\<lambda>command.
       try_catch
         (andThen (perform h (Exec command (config.root cfg))) (\<lambda>_. succeed ()))
         (\<lambda>err. throw (Error (hook_message command (stderr err)))))"

subsection \<open>Lines 123 to 151: upload, state, outputs\<close>

definition dirToUploadPath :: "'v config \<Rightarrow> string" where
  "dirToUploadPath cfg =
     (case config.src cfg of
        None \<Rightarrow> config.root cfg
      | Some p \<Rightarrow> if p \<noteq> [] then p else config.root cfg)"

definition website_url :: "string \<Rightarrow> string \<Rightarrow> string" where
  "website_url name reg = ''http://'' @ name @ ''.s3-website-'' @ reg @ ''.amazonaws.com''"

text \<open>Lines 133 to 136, the four assignments to \<open>this.state\<close>.\<close>

definition assign_state :: "'v config \<Rightarrow> string \<Rightarrow> state \<Rightarrow> state" where
  "assign_state cfg bucketOutputs_name st =
     st\<lparr>state.bucketName := Some (config.bucketName cfg),
        state.domain := config.domain cfg,
        state.region := Some (config.region cfg),
        state.url := Some (website_url bucketOutputs_name (config.region cfg))\<rparr>"

text \<open>Lines 142 to 149.\<close>

definition make_outputs :: "'v config \<Rightarrow> state \<Rightarrow> 'v outputs" where
  "make_outputs cfg st =
     \<lparr>outputs.url = (case state.url st of None \<Rightarrow> ''undefined'' | Some u \<Rightarrow> u),
      outputs.env = (case config.env cfg of None \<Rightarrow> [] | Some e \<Rightarrow> e),
      outputs.domain = (case config.domain cfg of
                  None \<Rightarrow> None
                | Some d \<Rightarrow> if d \<noteq> [] then Some (''http://'' @ d) else None)\<rparr>"

definition upload_and_persist ::
  "('w, 'v) host \<Rightarrow> 'v config \<Rightarrow> string \<Rightarrow> ('w, 'v outputs) action" where
  "upload_and_persist h cfg bucketOutputs_name =
     andThen (perform h (Upload ''websiteBucket'' (dirToUploadPath cfg))) (\<lambda>_.
     andThen (modify_state (assign_state cfg bucketOutputs_name)) (\<lambda>_.
     andThen (save h) (\<lambda>_.
     with_state (\<lambda>st. succeed (make_outputs cfg st)))))"

subsection \<open>The whole of \<open>default\<close>\<close>

definition website_default :: "('w, 'v) host \<Rightarrow> 'v inputs \<Rightarrow> ('w, 'v outputs) action" where
  "website_default h i =
     with_state (\<lambda>st.
      let cfg = resolve_inputs h st i in
      andThen (provision_website_bucket h cfg) (\<lambda>bucketOutputs_name.
      andThen (provision_domain h cfg) (\<lambda>_.
      andThen (drift_check h cfg) (\<lambda>_.
      andThen (env_bundle h cfg) (\<lambda>_.
      andThen (build_hook h cfg) (\<lambda>_.
      upload_and_persist h cfg bucketOutputs_name))))))"

section \<open>Remove: \<open>Website.remove\<close>\<close>

definition website_remove :: "('w, 'v) host \<Rightarrow> ('w, unit) action" where
  "website_remove h =
     andThen (perform h (Load ''@serverless/aws-s3'' ''websiteBucket'')) (\<lambda>websiteBucket.
     andThen (perform h (RemoveBucket ''websiteBucket'')) (\<lambda>_.
     andThen (with_state (\<lambda>st. when_truthy (state.domain st) (\<lambda>d.
        andThen (perform h (ConfigureDomainForBucket
                   (state.region st) d (state.region st) (Some ''DELETE''))) (\<lambda>_.
        andThen (perform h (ConfigureDomainForBucket
                   (state.region st) (''www.'' @ d) (state.region st) (Some ''DELETE''))) (\<lambda>_.
        andThen (perform h (Load ''@serverless/aws-s3'' ''redirectBucket'')) (\<lambda>redirectBucket.
        andThen (perform h (RemoveBucket ''redirectBucket'')) (\<lambda>_.
        succeed ()))))))) (\<lambda>_.
     andThen (modify_state (\<lambda>st. empty_state)) (\<lambda>_.
     andThen (save h) (\<lambda>_.
     succeed ())))))"

section \<open>Describing a run\<close>

text \<open>
  The definitions of this section describe runs; they are not part of the component. An
  event (a call with its reply) is resolved when the reply is \<open>Ok\<close>.
\<close>

definition resolved :: "call \<times> reply \<Rightarrow> bool" where
  "resolved ev = (case snd ev of Ok p \<Rightarrow> True | Fail e \<Rightarrow> False)"

text \<open>What the workflow throws when the call \<open>c\<close> is rejected with \<open>s\<close>: the wrapped error
  of line 117 for the build hook, the rejection itself for every other call.\<close>

fun thrown :: "call \<Rightarrow> string \<Rightarrow> error" where
  "thrown (Exec command dir) s = Error (hook_message command s)"
| "thrown c s = Rejected s"

text \<open>The events of a run that threw \<open>e\<close>: all resolved but the last one, whose rejection
  is what was thrown.\<close>

definition failed_with :: "(call \<times> reply) list \<Rightarrow> error \<Rightarrow> bool" where
  "failed_with evs e =
     (evs \<noteq> [] \<and> list_all resolved (butlast evs) \<and>
      (case snd (last evs) of Ok p \<Rightarrow> False | Fail s \<Rightarrow> e = thrown (fst (last evs)) s))"

text \<open>
  \<open>emits st f cs\<close>: started with \<open>this.state = st\<close>, the action \<open>f\<close> either returns after
  making exactly the calls \<open>cs\<close>, all resolved, or throws after making a prefix of them, the
  last one rejected, without having changed the state of the store. \<open>keeps f\<close>: the action
  changes neither \<open>this.state\<close> nor the state of the store.
\<close>

definition emits :: "state \<Rightarrow> ('w, 'a) action \<Rightarrow> call list \<Rightarrow> bool" where
  "emits st f cs =
     (\<forall>m. this_state m = st \<longrightarrow>
        (case f m of
           (r, m') \<Rightarrow>
             (\<exists>evs. trace m' = trace m @ evs \<and>
                (case r of
                   Inr x \<Rightarrow> map fst evs = cs \<and> list_all resolved evs
                 | Inl e \<Rightarrow> prefix (map fst evs) cs \<and> failed_with evs e \<and>
                     stored m' = stored m))))"

definition keeps :: "('w, 'a) action \<Rightarrow> bool" where
  "keeps f = (\<forall>m. case f m of (r, m') \<Rightarrow> this_state m' = this_state m \<and> stored m' = stored m)"

text \<open>The calls that each part of \<open>default\<close> makes when none is rejected, and the calls
  of the whole, where \<open>name\<close> is the name that the website bucket component resolves
  with.\<close>

definition domain_calls :: "'v config \<Rightarrow> call list" where
  "domain_calls cfg =
     (case config.domain cfg of
        None \<Rightarrow> []
      | Some d \<Rightarrow>
          if d \<noteq> [] then
            [Load ''@serverless/aws-s3'' ''redirectBucket'',
             DeployBucket ''redirectBucket'' (''www.'' @ d) False (config.region cfg),
             ConfigureBucketForRedirect (config.region cfg) (''www.'' @ d) d,
             ConfigureDomainForBucket (Some (config.region cfg)) d (Some (config.region cfg)) None,
             ConfigureDomainForBucket (Some (config.region cfg)) (''www.'' @ d)
               (Some (config.region cfg)) None]
          else [])"

definition drift_calls :: "'v config \<Rightarrow> state \<Rightarrow> call list" where
  "drift_calls cfg st =
     (case state.domain st of
        None \<Rightarrow> []
      | Some old \<Rightarrow>
          if old \<noteq> [] \<and> state.domain st \<noteq> config.domain cfg then
            [ConfigureDomainForBucket (Some (config.region cfg)) old (state.region st)
               (Some ''DELETE''),
             ConfigureDomainForBucket (Some (config.region cfg)) (''www.'' @ old) (state.region st)
               (Some ''DELETE'')]
          else [])"

definition env_calls :: "('w, 'v) host \<Rightarrow> 'v config \<Rightarrow> call list" where
  "env_calls h cfg =
     (case config.env cfg of
        None \<Rightarrow> []
      | Some e \<Rightarrow>
          if e \<noteq> [] \<and> config.root cfg \<noteq> [] then
            [WriteFile (path_join h (config.root cfg) ''env.js'') (env_script h e)]
          else [])"

definition hook_calls :: "'v config \<Rightarrow> call list" where
  "hook_calls cfg =
     (case config.hook cfg of
        None \<Rightarrow> []
      | Some command \<Rightarrow> if command \<noteq> [] then [Exec command (config.root cfg)] else [])"

definition final_calls :: "'v config \<Rightarrow> state \<Rightarrow> string \<Rightarrow> call list" where
  "final_calls cfg st name =
     [Upload ''websiteBucket'' (dirToUploadPath cfg), Save (assign_state cfg name st)]"

definition bucket_calls :: "'v config \<Rightarrow> call list" where
  "bucket_calls cfg =
     [Load ''@serverless/aws-s3'' ''websiteBucket'',
      DeployBucket ''websiteBucket'' (config.bucketName cfg) False (config.region cfg),
      ConfigureBucketForHosting (config.region cfg) (config.bucketName cfg)]"

definition deploy_calls :: "('w, 'v) host \<Rightarrow> 'v config \<Rightarrow> state \<Rightarrow> string \<Rightarrow> call list" where
  "deploy_calls h cfg st name =
     bucket_calls cfg @ domain_calls cfg @ drift_calls cfg st @ env_calls h cfg @
     hook_calls cfg @ final_calls cfg st name"

text \<open>The stages of a deploy, in the order of the source: provisioning and binding (0),
  unbinding (1), the environment bundle (2), the build hook (3), the upload (4), the save
  (5). The setup calls are the provisioning and DNS calls, that is stages 0 and 1.\<close>

fun stage :: "call \<Rightarrow> nat" where
  "stage (ConfigureDomainForBucket client d reg (Some action)) = 1"
| "stage (WriteFile p c) = 2"
| "stage (Exec command dir) = 3"
| "stage (Upload a dir) = 4"
| "stage (Save s) = 5"
| "stage c = 0"

fun is_setup :: "call \<Rightarrow> bool" where
  "is_setup (WriteFile p c) = False"
| "is_setup (Exec command dir) = False"
| "is_setup (Upload a dir) = False"
| "is_setup (Save s) = False"
| "is_setup c = True"

definition setup_resolved :: "(call \<times> reply) list \<Rightarrow> bool" where
  "setup_resolved evs = list_all (\<lambda>ev. is_setup (fst ev) \<longrightarrow> resolved ev) evs"

text \<open>The calls that \<open>remove\<close> makes when none is rejected.\<close>

definition remove_calls :: "state \<Rightarrow> call list" where
  "remove_calls st =
     [Load ''@serverless/aws-s3'' ''websiteBucket'', RemoveBucket ''websiteBucket''] @
     (case state.domain st of
        None \<Rightarrow> []
      | Some d \<Rightarrow>
          if d \<noteq> [] then
            [ConfigureDomainForBucket (state.region st) d (state.region st) (Some ''DELETE''),
             ConfigureDomainForBucket (state.region st) (''www.'' @ d) (state.region st)
               (Some ''DELETE''),
             Load ''@serverless/aws-s3'' ''redirectBucket'',
             RemoveBucket ''redirectBucket'']
          else []) @
     [Save empty_state]"

section \<open>Example hosts, inputs and states\<close>

text \<open>\<open>JSON.stringify\<close> on a string of ASCII characters, after the operation
  \<open>QuoteJSONString\<close> of ECMAScript: the string in double quotes, with the quote, the
  backslash and the control characters escaped.\<close>

definition hex_digit :: "nat \<Rightarrow> char" where
  "hex_digit n = ''0123456789abcdef'' ! (n mod 16)"

definition json_quote_char :: "char \<Rightarrow> string" where
  "json_quote_char c =
     (if c = CHR 0x08 then [CHR 0x5C, CHR ''b'']
      else if c = CHR 0x09 then [CHR 0x5C, CHR ''t'']
      else if c = CHR 0x0A then [CHR 0x5C, CHR ''n'']
      else if c = CHR 0x0C then [CHR 0x5C, CHR ''f'']
      else if c = CHR 0x0D then [CHR 0x5C, CHR ''r'']
      else if c = CHR 0x22 then [CHR 0x5C, CHR 0x22]
      else if c = CHR 0x5C then [CHR 0x5C, CHR 0x5C]
      else if (of_char c :: nat) < 32 then
        [CHR 0x5C, CHR ''u'', CHR ''0'', CHR ''0'',
         hex_digit (of_char c div 16), hex_digit (of_char c)]
      else [c])"

definition json_quote :: "string \<Rightarrow> string" where
  "json_quote s = [CHR 0x22] @ concat (map json_quote_char s) @ [CHR 0x22]"

text \<open>A host whose collaborators reject exactly the calls in \<open>rejects\<close>, and whose bucket
  component reports the name it was given. The working directory is \<open>/home/site\<close>.\<close>

definition example_host :: "(call \<Rightarrow> bool) \<Rightarrow> (unit, string) host" where
  "example_host rejects =
     \<lparr>respond = (\<lambda>w c. (if rejects c then Fail ''boom''
                         else Ok (case c of DeployBucket a name acc reg \<Rightarrow> name | _ \<Rightarrow> ''''), w)),
      resourceId = ''website-k3x9'',
      cwd = ''/home/site'',
      path_resolve = (\<lambda>p. if take 1 p = ''/'' then p else ''/home/site/'' @ p),
      path_join = (\<lambda>a b. a @ ''/'' @ b),
      JSON_stringify = json_quote\<rparr>"

definition rejects_nothing :: "call \<Rightarrow> bool" where
  "rejects_nothing c = False"

definition rejects_exec :: "call \<Rightarrow> bool" where
  "rejects_exec c = (case c of Exec command dir \<Rightarrow> True | _ \<Rightarrow> False)"

definition no_inputs :: "string inputs" where
  "no_inputs = \<lparr>inputs.code = None, inputs.region = None, inputs.domain = None, inputs.env = None\<rparr>"

definition inputs_b :: "string inputs" where
  "inputs_b =
     \<lparr>inputs.code = Some \<lparr>code.root = Some ''/srv/site'', code.src = Some ''dist'',
                           code.hook = Some ''npm run build''\<rparr>,
      inputs.region = Some ''us-west-2'',
      inputs.domain = Some ''b.com'',
      inputs.env = Some [(''API'', ''https://x'')]\<rparr>"

definition state_a :: state where
  "state_a =
     \<lparr>state.bucketName = Some ''x'', state.domain = Some ''a.com'',
      state.region = Some ''eu-west-1'',
      state.url = Some ''http://x.s3-website-eu-west-1.amazonaws.com''\<rparr>"

definition state_x :: state where
  "state_x =
     \<lparr>state.bucketName = Some ''x'', state.domain = None,
      state.region = Some ''eu-west-1'',
      state.url = Some ''http://x.s3-website-eu-west-1.amazonaws.com''\<rparr>"

text \<open>The index of the first occurrence of a call.\<close>

fun position :: "'a \<Rightarrow> 'a list \<Rightarrow> nat option" where
  "position x [] = None"
| "position x (y # ys) = (if x = y then Some 0 else map_option Suc (position x ys))"

section \<open>The calls of a run\<close>

lemma failed_with_append:
  "failed_with evs2 e \<Longrightarrow> list_all resolved evs1 \<Longrightarrow> failed_with (evs1 @ evs2) e"
  by (cases "evs2 = []") (auto simp: failed_with_def butlast_append split: reply.splits)

lemma keeps_perform: "keeps (perform h c)"
  by (simp add: keeps_def perform_def split: prod.split)

lemma keeps_succeed: "keeps (succeed x)"
  by (simp add: keeps_def succeed_def)

lemma keeps_andThen: "keeps f \<Longrightarrow> (\<And>x. keeps (g x)) \<Longrightarrow> keeps (andThen f g)"
  unfolding keeps_def andThen_def
proof (intro allI)
  fix m
  assume f: "\<forall>m. case f m of (r, m') \<Rightarrow> this_state m' = this_state m \<and> stored m' = stored m"
    and g: "\<And>x. \<forall>m. case g x m of (r, m') \<Rightarrow> this_state m' = this_state m \<and> stored m' = stored m"
  obtain r m1 where fm: "f m = (r, m1)" by (cases "f m")
  from f fm have k1: "this_state m1 = this_state m \<and> stored m1 = stored m"
    by (metis (mono_tags, lifting) case_prod_conv)
  show "case case f m of (Inl e, m') \<Rightarrow> (Inl e, m') | (Inr x, m') \<Rightarrow> g x m' of
          (r, m') \<Rightarrow> this_state m' = this_state m \<and> stored m' = stored m"
  proof (cases r)
    case (Inl e)
    with fm k1 show ?thesis by simp
  next
    case (Inr x)
    obtain r2 m2 where gm: "g x m1 = (r2, m2)" by (cases "g x m1")
    from g [of x] gm have "this_state m2 = this_state m1 \<and> stored m2 = stored m1"
      by (metis (mono_tags, lifting) case_prod_conv)
    with fm Inr gm k1 show ?thesis by simp
  qed
qed

lemma keeps_when_truthy: "(\<And>s. keeps (body s)) \<Longrightarrow> keeps (when_truthy v body)"
  by (simp add: when_truthy_def keeps_succeed split: option.split)

lemma keeps_with_state: "(\<And>st. keeps (f st)) \<Longrightarrow> keeps (with_state f)"
  by (simp add: keeps_def with_state_def)

lemma keepsD: "keeps f \<Longrightarrow> f m = (r, m') \<Longrightarrow> this_state m' = this_state m \<and> stored m' = stored m"
  unfolding keeps_def by (metis (mono_tags, lifting) case_prod_conv)

lemma emitsD:
  assumes "emits st f cs" and "this_state m = st" and "f m = (r, m')"
  obtains evs where "trace m' = trace m @ evs"
    and "\<And>x. r = Inr x \<Longrightarrow> map fst evs = cs \<and> list_all resolved evs"
    and "\<And>e. r = Inl e \<Longrightarrow> prefix (map fst evs) cs \<and> failed_with evs e \<and> stored m' = stored m"
proof -
  from assms have "\<exists>evs. trace m' = trace m @ evs \<and>
      (case r of Inr x \<Rightarrow> map fst evs = cs \<and> list_all resolved evs
               | Inl e \<Rightarrow> prefix (map fst evs) cs \<and> failed_with evs e \<and> stored m' = stored m)"
    unfolding emits_def by fastforce
  then obtain evs where "trace m' = trace m @ evs"
    and "case r of Inr x \<Rightarrow> map fst evs = cs \<and> list_all resolved evs
               | Inl e \<Rightarrow> prefix (map fst evs) cs \<and> failed_with evs e \<and> stored m' = stored m"
    by blast
  then show thesis using that by (cases r) auto
qed

lemma emits_succeed: "emits st (succeed x) []"
  by (simp add: emits_def succeed_def)

lemma emits_with_state: "emits st (f st) cs \<Longrightarrow> emits st (with_state f) cs"
  by (simp add: emits_def with_state_def)

lemma emits_perform:
  assumes "\<And>s. thrown c s = Rejected s"
  shows "emits st (perform h c) [c]"
  using assms
  by (auto simp: emits_def perform_def failed_with_def resolved_def split: prod.split reply.split)

lemma emits_andThen_dep:
  assumes f: "emits st f cs" and k: "keeps f" and g: "\<And>x. emits st (g x) (ds x)"
    and st: "this_state m = st" and run: "andThen f g m = (r, m')"
  shows "\<exists>x evs. trace m' = trace m @ evs \<and>
           (case r of
              Inr y \<Rightarrow> map fst evs = cs @ ds x \<and> list_all resolved evs
            | Inl e \<Rightarrow> prefix (map fst evs) (cs @ ds x) \<and> failed_with evs e \<and>
                stored m' = stored m)"
proof -
  obtain r1 m1 where fm: "f m = (r1, m1)" by (cases "f m")
  from emitsD [OF f st fm] obtain evs1 where e1: "trace m1 = trace m @ evs1"
    and ok1: "\<And>x. r1 = Inr x \<Longrightarrow> map fst evs1 = cs \<and> list_all resolved evs1"
    and bad1: "\<And>e. r1 = Inl e \<Longrightarrow>
                 prefix (map fst evs1) cs \<and> failed_with evs1 e \<and> stored m1 = stored m"
    by blast
  from keepsD [OF k fm] st have st1: "this_state m1 = st" and sto1: "stored m1 = stored m"
    by simp_all
  show ?thesis
  proof (cases r1)
    case (Inl e)
    with run fm have "r = Inl e" "m' = m1" by (simp_all add: andThen_def)
    moreover from bad1 [OF Inl] have "prefix (map fst evs1) (cs @ ds undefined)"
      "failed_with evs1 e" "stored m1 = stored m"
      by (auto simp: prefix_def)
    ultimately show ?thesis using e1 by fastforce
  next
    case (Inr x)
    with run fm have gm: "g x m1 = (r, m')" by (simp add: andThen_def)
    from emitsD [OF g st1 gm] obtain evs2 where e2: "trace m' = trace m1 @ evs2"
      and ok2: "\<And>y. r = Inr y \<Longrightarrow> map fst evs2 = ds x \<and> list_all resolved evs2"
      and bad2: "\<And>e. r = Inl e \<Longrightarrow>
                   prefix (map fst evs2) (ds x) \<and> failed_with evs2 e \<and> stored m' = stored m1"
      by blast
    from ok1 [OF Inr] have c1: "map fst evs1 = cs" "list_all resolved evs1" by simp_all
    have tr: "trace m' = trace m @ (evs1 @ evs2)" using e1 e2 by simp
    have "case r of
            Inr y \<Rightarrow> map fst (evs1 @ evs2) = cs @ ds x \<and> list_all resolved (evs1 @ evs2)
          | Inl e \<Rightarrow> prefix (map fst (evs1 @ evs2)) (cs @ ds x) \<and>
              failed_with (evs1 @ evs2) e \<and> stored m' = stored m"
    proof (cases r)
      case (Inl e)
      with bad2 [OF Inl] c1 sto1 show ?thesis by (simp add: failed_with_append)
    next
      case (Inr y)
      with ok2 [OF Inr] c1 show ?thesis by simp
    qed
    with tr show ?thesis by blast
  qed
qed

lemma emits_andThen:
  assumes f: "emits st f cs" and k: "keeps f" and g: "\<And>x. emits st (g x) ds"
  shows "emits st (andThen f g) (cs @ ds)"
  unfolding emits_def
proof (intro allI impI)
  fix m :: "'a machine"
  assume st: "this_state m = st"
  obtain r m' where run: "andThen f g m = (r, m')" by (cases "andThen f g m")
  from emits_andThen_dep [OF f k g st run] run
  show "case andThen f g m of
          (r, m') \<Rightarrow> \<exists>evs. trace m' = trace m @ evs \<and>
            (case r of Inr x \<Rightarrow> map fst evs = cs @ ds \<and> list_all resolved evs
                     | Inl e \<Rightarrow> prefix (map fst evs) (cs @ ds) \<and> failed_with evs e \<and>
                         stored m' = stored m)"
    by simp
qed

lemma emits_step:
  assumes "\<And>s. thrown c s = Rejected s" and "\<And>x. emits st (g x) ds"
  shows "emits st (andThen (perform h c) g) (c # ds)"
  using emits_andThen [OF emits_perform keeps_perform, of c st g ds h] assms by simp

lemma keeps_step: "(\<And>x. keeps (g x)) \<Longrightarrow> keeps (andThen (perform h c) g)"
  by (rule keeps_andThen [OF keeps_perform])

lemma emits_bucket: "emits st (provision_website_bucket h cfg) (bucket_calls cfg)"
  unfolding provision_website_bucket_def bucket_calls_def
  by (intro emits_step emits_succeed) simp_all

lemma keeps_bucket: "keeps (provision_website_bucket h cfg)"
  unfolding provision_website_bucket_def
  by (intro keeps_step keeps_succeed)

lemma emits_domain: "emits st (provision_domain h cfg) (domain_calls cfg)"
  unfolding provision_domain_def domain_calls_def when_truthy_def
  by (auto split: option.split intro!: emits_step emits_succeed)

lemma keeps_domain: "keeps (provision_domain h cfg)"
  unfolding provision_domain_def
  by (intro keeps_when_truthy keeps_step keeps_succeed)

lemma emits_drift: "emits st (drift_check h cfg) (drift_calls cfg st)"
  unfolding drift_check_def drift_calls_def when_truthy_def
  by (rule emits_with_state) (auto split: option.split intro!: emits_step emits_succeed)

lemma keeps_drift: "keeps (drift_check h cfg)"
  unfolding drift_check_def
  by (auto intro!: keeps_with_state keeps_when_truthy keeps_step keeps_succeed)

lemma emits_env: "emits st (env_bundle h cfg) (env_calls h cfg)"
  unfolding env_bundle_def env_calls_def env_guard_def
  by (auto split: option.split intro!: emits_step emits_succeed)

lemma keeps_env: "keeps (env_bundle h cfg)"
  unfolding env_bundle_def
  by (auto intro!: keeps_step keeps_succeed)

lemma emits_hook: "emits st (build_hook h cfg) (hook_calls cfg)"
  unfolding build_hook_def hook_calls_def when_truthy_def
  by (auto simp: emits_def succeed_def try_catch_def andThen_def perform_def throw_def
      failed_with_def resolved_def split: option.split prod.split reply.split)

lemma keeps_hook: "keeps (build_hook h cfg)"
  unfolding build_hook_def when_truthy_def
  by (auto simp: keeps_def succeed_def try_catch_def andThen_def perform_def throw_def
      split: option.split prod.split reply.split)

lemma emits_final:
  "emits st (upload_and_persist h cfg name) (final_calls cfg st name)"
  unfolding upload_and_persist_def final_calls_def
  by (auto simp: emits_def succeed_def andThen_def perform_def save_def modify_state_def
      with_state_def failed_with_def resolved_def split: prod.split reply.split)

lemma emits_after_bucket:
  "emits st
     (andThen (provision_domain h cfg) (\<lambda>_.
      andThen (drift_check h cfg) (\<lambda>_.
      andThen (env_bundle h cfg) (\<lambda>_.
      andThen (build_hook h cfg) (\<lambda>_.
      upload_and_persist h cfg name)))))
     (domain_calls cfg @ drift_calls cfg st @ env_calls h cfg @ hook_calls cfg @
      final_calls cfg st name)"
  by (intro emits_andThen emits_domain keeps_domain emits_drift keeps_drift emits_env keeps_env
      emits_hook keeps_hook emits_final)

lemma default_run:
  assumes run: "website_default h i (start w st) = (r, m')"
  shows "\<exists>name.
           (case r of
              Inr out \<Rightarrow>
                calls m' = deploy_calls h (resolve_inputs h st i) st name \<and>
                list_all resolved (trace m')
            | Inl e \<Rightarrow>
                prefix (calls m') (deploy_calls h (resolve_inputs h st i) st name) \<and>
                failed_with (trace m') e \<and> stored m' = st)"
proof -
  let ?cfg = "resolve_inputs h st i"
  let ?m = "start w st"
  have st: "this_state ?m = st" and tr: "trace ?m = []" and sto: "stored ?m = st"
    by (simp_all add: start_def)
  from run have run': "andThen (provision_website_bucket h ?cfg) (\<lambda>name.
      andThen (provision_domain h ?cfg) (\<lambda>_.
      andThen (drift_check h ?cfg) (\<lambda>_.
      andThen (env_bundle h ?cfg) (\<lambda>_.
      andThen (build_hook h ?cfg) (\<lambda>_.
      upload_and_persist h ?cfg name))))) ?m = (r, m')"
    by (simp add: website_default_def with_state_def Let_def st)
  from emits_andThen_dep [OF emits_bucket keeps_bucket emits_after_bucket st run']
  obtain name evs where "trace m' = trace ?m @ evs"
    and "case r of
           Inr y \<Rightarrow> map fst evs = deploy_calls h ?cfg st name \<and> list_all resolved evs
         | Inl e \<Rightarrow> prefix (map fst evs) (deploy_calls h ?cfg st name) \<and> failed_with evs e \<and>
             stored m' = stored ?m"
    unfolding deploy_calls_def by blast
  then have "case r of
           Inr y \<Rightarrow> calls m' = deploy_calls h ?cfg st name \<and> list_all resolved (trace m')
         | Inl e \<Rightarrow> prefix (calls m') (deploy_calls h ?cfg st name) \<and> failed_with (trace m') e \<and>
             stored m' = st"
    by (cases r) (simp_all add: tr sto calls_def)
  then show ?thesis ..
qed

lemma andThen_InrE:
  assumes "andThen f g m = (Inr y, m')"
  obtains x m1 where "f m = (Inr x, m1)" and "g x m1 = (Inr y, m')"
  using assms by (auto simp: andThen_def split: prod.splits sum.splits)

lemma andThen_keeps_InrE:
  assumes "andThen f g m = (Inr y, m')" and "keeps f"
  obtains x m1 where "this_state m1 = this_state m" and "stored m1 = stored m"
    and "g x m1 = (Inr y, m')"
proof -
  from assms(1) obtain x m1 where f: "f m = (Inr x, m1)" and g: "g x m1 = (Inr y, m')"
    by (rule andThen_InrE)
  from keepsD [OF assms(2) f] g that show thesis by blast
qed

lemma bucket_name:
  "provision_website_bucket h cfg m = (Inr name, m1) \<Longrightarrow>
     (DeployBucket ''websiteBucket'' (config.bucketName cfg) False (config.region cfg), Ok name)
       \<in> set (trace m1)"
  by (auto simp: provision_website_bucket_def andThen_def perform_def succeed_def
      split: prod.splits reply.splits)

lemma final_success:
  "upload_and_persist h cfg name m = (Inr out, m') \<Longrightarrow>
     out = make_outputs cfg (assign_state cfg name (this_state m)) \<and>
     stored m' = assign_state cfg name (this_state m) \<and>
     this_state m' = assign_state cfg name (this_state m) \<and>
     Save (assign_state cfg name (this_state m)) \<in> set (calls m')"
  by (auto simp: upload_and_persist_def andThen_def perform_def succeed_def save_def
      modify_state_def with_state_def calls_def split: prod.splits reply.splits)

lemma default_success:
  assumes run: "website_default h i (start w st) = (Inr out, m')"
  shows "\<exists>name.
           (DeployBucket ''websiteBucket'' (config.bucketName (resolve_inputs h st i)) False
              (config.region (resolve_inputs h st i)), Ok name) \<in> set (trace m') \<and>
           out = make_outputs (resolve_inputs h st i) (assign_state (resolve_inputs h st i) name st) \<and>
           stored m' = assign_state (resolve_inputs h st i) name st \<and>
           this_state m' = assign_state (resolve_inputs h st i) name st \<and>
           Save (assign_state (resolve_inputs h st i) name st) \<in> set (calls m')"
proof -
  define cfg where "cfg = resolve_inputs h st i"
  have st: "this_state (start w st) = st" by (simp add: start_def)
  from run have "andThen (provision_website_bucket h cfg) (\<lambda>name.
      andThen (provision_domain h cfg) (\<lambda>_.
      andThen (drift_check h cfg) (\<lambda>_.
      andThen (env_bundle h cfg) (\<lambda>_.
      andThen (build_hook h cfg) (\<lambda>_.
      upload_and_persist h cfg name))))) (start w st) = (Inr out, m')"
    by (simp add: website_default_def with_state_def Let_def st cfg_def)
  then obtain name m1
    where b: "provision_website_bucket h cfg (start w st) = (Inr name, m1)"
      and rest: "andThen (provision_domain h cfg) (\<lambda>_.
        andThen (drift_check h cfg) (\<lambda>_.
        andThen (env_bundle h cfg) (\<lambda>_.
        andThen (build_hook h cfg) (\<lambda>_.
        upload_and_persist h cfg name)))) m1 = (Inr out, m')"
    by (rule andThen_InrE)
  from keepsD [OF keeps_bucket b] st have st1: "this_state m1 = st" by simp
  from emits_after_bucket st1 rest obtain evs where "trace m' = trace m1 @ evs"
    by (rule emitsD)
  with bucket_name [OF b]
  have name: "(DeployBucket ''websiteBucket'' (config.bucketName cfg) False (config.region cfg),
      Ok name) \<in> set (trace m')"
    by simp
  from rest keeps_domain obtain u2 m2
    where st2: "this_state m2 = this_state m1"
      and rest2: "andThen (drift_check h cfg) (\<lambda>_.
        andThen (env_bundle h cfg) (\<lambda>_.
        andThen (build_hook h cfg) (\<lambda>_.
        upload_and_persist h cfg name))) m2 = (Inr out, m')"
    by (rule andThen_keeps_InrE)
  from rest2 keeps_drift obtain u3 m3
    where st3: "this_state m3 = this_state m2"
      and rest3: "andThen (env_bundle h cfg) (\<lambda>_.
        andThen (build_hook h cfg) (\<lambda>_.
        upload_and_persist h cfg name)) m3 = (Inr out, m')"
    by (rule andThen_keeps_InrE)
  from rest3 keeps_env obtain u4 m4
    where st4: "this_state m4 = this_state m3"
      and rest4: "andThen (build_hook h cfg) (\<lambda>_.
        upload_and_persist h cfg name) m4 = (Inr out, m')"
    by (rule andThen_keeps_InrE)
  from rest4 keeps_hook obtain u5 m5
    where st5: "this_state m5 = this_state m4"
      and fin: "upload_and_persist h cfg name m5 = (Inr out, m')"
    by (rule andThen_keeps_InrE)
  have "this_state m5 = st" using st1 st2 st3 st4 st5 by simp
  with final_success [OF fin] name show ?thesis
    unfolding cfg_def by blast
qed

lemma is_setup_stage: "is_setup c \<longleftrightarrow> stage c \<le> 1"
  by (cases c rule: stage.cases) simp_all

lemma sorted_const: "\<forall>x\<in>set xs. stage x = n \<Longrightarrow> sorted (map stage xs)"
  by (simp add: sorted_iff_nth_mono)

lemma sorted_plan: "sorted (map stage (deploy_calls h cfg st name))"
proof -
  have b: "\<forall>x\<in>set (bucket_calls cfg). stage x = 0"
    by (simp add: bucket_calls_def)
  have d: "\<forall>x\<in>set (domain_calls cfg). stage x = 0"
    by (cases "config.domain cfg") (auto simp: domain_calls_def)
  have dr: "\<forall>x\<in>set (drift_calls cfg st). stage x = 1"
    by (cases "state.domain st") (auto simp: drift_calls_def)
  have en: "\<forall>x\<in>set (env_calls h cfg). stage x = 2"
    by (cases "config.env cfg") (auto simp: env_calls_def)
  have ho: "\<forall>x\<in>set (hook_calls cfg). stage x = 3"
    by (cases "config.hook cfg") (auto simp: hook_calls_def)
  have f: "sorted (map stage (final_calls cfg st name))"
      "\<forall>x\<in>set (final_calls cfg st name). 4 \<le> stage x"
    by (simp_all add: final_calls_def)
  have s1: "sorted (map stage (hook_calls cfg @ final_calls cfg st name))"
    using ho f sorted_const [OF ho] by (auto simp: sorted_append)
  have s2: "sorted (map stage (env_calls h cfg @ hook_calls cfg @ final_calls cfg st name))"
    using en ho f s1 sorted_const [OF en] by (auto simp: sorted_append)
  have s3: "sorted (map stage (drift_calls cfg st @ env_calls h cfg @ hook_calls cfg @
      final_calls cfg st name))"
    using dr en ho f s2 sorted_const [OF dr] by (auto simp: sorted_append)
  have s4: "sorted (map stage (domain_calls cfg @ drift_calls cfg st @ env_calls h cfg @
      hook_calls cfg @ final_calls cfg st name))"
    using d dr en ho f s3 sorted_const [OF d] by (auto simp: sorted_append)
  show ?thesis
    unfolding deploy_calls_def
    using b d dr en ho f s4 sorted_const [OF b] by (auto simp: sorted_append)
qed

lemma earlier_stage_done:
  "sorted (map stage (xs @ c # zs)) \<Longrightarrow> x \<in> set (xs @ c # zs) \<Longrightarrow> stage x < stage c \<Longrightarrow> x \<in> set xs"
  by (auto simp: sorted_append)

lemma later_stage_not_done:
  "sorted (map stage (xs @ c # zs)) \<Longrightarrow> x \<in> set xs \<Longrightarrow> stage x \<le> stage c"
  by (auto simp: sorted_append)

lemma plan_delete:
  assumes "ConfigureDomainForBucket client dn reg (Some action) \<in> set (deploy_calls h cfg st name)"
  shows "\<exists>old. state.domain st = Some old \<and> old \<noteq> [] \<and> state.domain st \<noteq> config.domain cfg \<and>
           client = Some (config.region cfg) \<and> reg = state.region st \<and> action = ''DELETE'' \<and>
           (dn = old \<or> dn = ''www.'' @ old)"
proof -
  have "ConfigureDomainForBucket client dn reg (Some action) \<notin> set (bucket_calls cfg)"
    by (simp add: bucket_calls_def)
  moreover have "ConfigureDomainForBucket client dn reg (Some action) \<notin> set (domain_calls cfg)"
    by (cases "config.domain cfg") (simp_all add: domain_calls_def)
  moreover have "ConfigureDomainForBucket client dn reg (Some action) \<notin> set (env_calls h cfg)"
    by (cases "config.env cfg") (simp_all add: env_calls_def)
  moreover have "ConfigureDomainForBucket client dn reg (Some action) \<notin> set (hook_calls cfg)"
    by (cases "config.hook cfg") (simp_all add: hook_calls_def)
  moreover have "ConfigureDomainForBucket client dn reg (Some action) \<notin> set (final_calls cfg st name)"
    by (simp add: final_calls_def)
  ultimately have d: "ConfigureDomainForBucket client dn reg (Some action) \<in> set (drift_calls cfg st)"
    using assms by (simp add: deploy_calls_def)
  show ?thesis
  proof (cases "state.domain st")
    case None
    with d show ?thesis by (simp add: drift_calls_def)
  next
    case (Some old)
    with d show ?thesis by (auto simp: drift_calls_def split: if_splits)
  qed
qed

lemma plan_write:
  assumes "WriteFile p c \<in> set (deploy_calls h cfg st name)"
  shows "\<exists>e. config.env cfg = Some e \<and> e \<noteq> [] \<and> config.root cfg \<noteq> [] \<and>
           p = path_join h (config.root cfg) ''env.js'' \<and> c = env_script h e"
proof -
  have "WriteFile p c \<notin> set (bucket_calls cfg)"
    by (simp add: bucket_calls_def)
  moreover have "WriteFile p c \<notin> set (domain_calls cfg)"
    by (cases "config.domain cfg") (simp_all add: domain_calls_def)
  moreover have "WriteFile p c \<notin> set (drift_calls cfg st)"
    by (cases "state.domain st") (simp_all add: drift_calls_def)
  moreover have "WriteFile p c \<notin> set (hook_calls cfg)"
    by (cases "config.hook cfg") (simp_all add: hook_calls_def)
  moreover have "WriteFile p c \<notin> set (final_calls cfg st name)"
    by (simp add: final_calls_def)
  ultimately have d: "WriteFile p c \<in> set (env_calls h cfg)"
    using assms by (simp add: deploy_calls_def)
  show ?thesis
  proof (cases "config.env cfg")
    case None
    with d show ?thesis by (simp add: env_calls_def)
  next
    case (Some e)
    with d show ?thesis by (auto simp: env_calls_def split: if_splits)
  qed
qed

lemma plan_exec:
  assumes "Exec command dir \<in> set (deploy_calls h cfg st name)"
  shows "config.hook cfg = Some command \<and> command \<noteq> [] \<and> dir = config.root cfg"
proof -
  have "Exec command dir \<notin> set (bucket_calls cfg)"
    by (simp add: bucket_calls_def)
  moreover have "Exec command dir \<notin> set (domain_calls cfg)"
    by (cases "config.domain cfg") (simp_all add: domain_calls_def)
  moreover have "Exec command dir \<notin> set (drift_calls cfg st)"
    by (cases "state.domain st") (simp_all add: drift_calls_def)
  moreover have "Exec command dir \<notin> set (env_calls h cfg)"
    by (cases "config.env cfg") (simp_all add: env_calls_def)
  moreover have "Exec command dir \<notin> set (final_calls cfg st name)"
    by (simp add: final_calls_def)
  ultimately have d: "Exec command dir \<in> set (hook_calls cfg)"
    using assms by (simp add: deploy_calls_def)
  show ?thesis
  proof (cases "config.hook cfg")
    case None
    with d show ?thesis by (simp add: hook_calls_def)
  next
    case (Some e)
    with d show ?thesis by (auto simp: hook_calls_def split: if_splits)
  qed
qed

lemma plan_save:
  "deploy_calls h cfg st name =
     (bucket_calls cfg @ domain_calls cfg @ drift_calls cfg st @ env_calls h cfg @ hook_calls cfg) @
     [Upload ''websiteBucket'' (dirToUploadPath cfg), Save (assign_state cfg name st)]"
  by (simp add: deploy_calls_def final_calls_def)

lemma plan_no_early_save:
  "Save s \<notin> set (bucket_calls cfg @ domain_calls cfg @ drift_calls cfg st @ env_calls h cfg @
     hook_calls cfg)"
proof -
  have "Save s \<notin> set (bucket_calls cfg)"
    by (simp add: bucket_calls_def)
  moreover have "Save s \<notin> set (domain_calls cfg)"
    by (cases "config.domain cfg") (simp_all add: domain_calls_def)
  moreover have "Save s \<notin> set (drift_calls cfg st)"
    by (cases "state.domain st") (simp_all add: drift_calls_def)
  moreover have "Save s \<notin> set (env_calls h cfg)"
    by (cases "config.env cfg") (simp_all add: env_calls_def)
  moreover have "Save s \<notin> set (hook_calls cfg)"
    by (cases "config.hook cfg") (simp_all add: hook_calls_def)
  ultimately show ?thesis by simp
qed

lemma plan_domain:
  assumes "config.domain cfg = Some d" and "d \<noteq> []"
  shows "DeployBucket ''redirectBucket'' (''www.'' @ d) False (config.region cfg)
           \<in> set (deploy_calls h cfg st name)"
    and "ConfigureBucketForRedirect (config.region cfg) (''www.'' @ d) d
           \<in> set (deploy_calls h cfg st name)"
    and "ConfigureDomainForBucket (Some (config.region cfg)) d (Some (config.region cfg)) None
           \<in> set (deploy_calls h cfg st name)"
    and "ConfigureDomainForBucket (Some (config.region cfg)) (''www.'' @ d)
           (Some (config.region cfg)) None \<in> set (deploy_calls h cfg st name)"
  using assms by (simp_all add: deploy_calls_def domain_calls_def)

lemma plan_no_domain:
  assumes "\<not> truthy (config.domain cfg)"
  shows "Load c ''redirectBucket'' \<notin> set (deploy_calls h cfg st name)"
    and "DeployBucket ''redirectBucket'' n acc reg \<notin> set (deploy_calls h cfg st name)"
    and "ConfigureBucketForRedirect s3 b t \<notin> set (deploy_calls h cfg st name)"
    and "ConfigureDomainForBucket client dn reg' None \<notin> set (deploy_calls h cfg st name)"
proof -
  from assms have d: "domain_calls cfg = []"
    by (cases "config.domain cfg") (simp_all add: domain_calls_def truthy_def)
  have dr: "set (drift_calls cfg st) \<subseteq>
      {ConfigureDomainForBucket a b c (Some e) | a b c e. True}"
    by (cases "state.domain st") (auto simp: drift_calls_def)
  have en: "set (env_calls h cfg) \<subseteq> {WriteFile a b | a b. True}"
    by (cases "config.env cfg") (auto simp: env_calls_def)
  have ho: "set (hook_calls cfg) \<subseteq> {Exec a b | a b. True}"
    by (cases "config.hook cfg") (auto simp: hook_calls_def)
  show "Load c ''redirectBucket'' \<notin> set (deploy_calls h cfg st name)"
    using d dr en ho by (auto simp: deploy_calls_def bucket_calls_def final_calls_def)
  show "DeployBucket ''redirectBucket'' n acc reg \<notin> set (deploy_calls h cfg st name)"
    using d dr en ho by (auto simp: deploy_calls_def bucket_calls_def final_calls_def)
  show "ConfigureBucketForRedirect s3 b t \<notin> set (deploy_calls h cfg st name)"
    using d dr en ho by (auto simp: deploy_calls_def bucket_calls_def final_calls_def)
  show "ConfigureDomainForBucket client dn reg' None \<notin> set (deploy_calls h cfg st name)"
    using d dr en ho by (auto simp: deploy_calls_def bucket_calls_def final_calls_def)
qed

lemma plan_drift:
  assumes "state.domain st = Some old" and "old \<noteq> []" and "state.domain st \<noteq> config.domain cfg"
  shows "ConfigureDomainForBucket (Some (config.region cfg)) old (state.region st) (Some ''DELETE'')
           \<in> set (deploy_calls h cfg st name)"
    and "ConfigureDomainForBucket (Some (config.region cfg)) (''www.'' @ old) (state.region st)
           (Some ''DELETE'') \<in> set (deploy_calls h cfg st name)"
  using assms by (simp_all add: deploy_calls_def drift_calls_def)

lemma plan_env:
  assumes "config.env cfg = Some e" and "e \<noteq> []" and "config.root cfg \<noteq> []"
  shows "WriteFile (path_join h (config.root cfg) ''env.js'') (env_script h e)
           \<in> set (deploy_calls h cfg st name)"
  using assms by (simp add: deploy_calls_def env_calls_def)

text \<open>The calls of a run are a prefix of the planned calls; a run that does not fail
  at a setup call has made every planned call of an earlier stage.\<close>

lemma run_prefix:
  assumes "website_default h i (start w st) = (r, m')"
  shows "\<exists>name zs. deploy_calls h (resolve_inputs h st i) st name = calls m' @ zs \<and>
           (\<forall>out. r = Inr out \<longrightarrow> zs = [] \<and> list_all resolved (trace m')) \<and>
           (\<forall>e. r = Inl e \<longrightarrow> failed_with (trace m') e \<and> stored m' = st)"
proof -
  from default_run [OF assms] obtain name where
    n: "case r of
              Inr out \<Rightarrow>
                calls m' = deploy_calls h (resolve_inputs h st i) st name \<and>
                list_all resolved (trace m')
            | Inl e \<Rightarrow>
                prefix (calls m') (deploy_calls h (resolve_inputs h st i) st name) \<and>
                failed_with (trace m') e \<and> stored m' = st"
    by blast
  show ?thesis
  proof (cases r)
    case (Inl e)
    with n obtain zs where "deploy_calls h (resolve_inputs h st i) st name = calls m' @ zs"
      by (auto simp: prefix_def)
    with n Inl show ?thesis by auto
  next
    case (Inr out)
    with n have "deploy_calls h (resolve_inputs h st i) st name = calls m' @ []"
      "list_all resolved (trace m')" by simp_all
    with Inr show ?thesis by blast
  qed
qed

lemma failed_last:
  assumes "failed_with evs e"
  shows "\<exists>pre c s. evs = pre @ [(c, Fail s)] \<and> list_all resolved pre \<and> e = thrown c s"
proof -
  from assms have ne: "evs \<noteq> []" and ok: "list_all resolved (butlast evs)"
    and l: "case snd (last evs) of Ok p \<Rightarrow> False | Fail s \<Rightarrow> e = thrown (fst (last evs)) s"
    by (simp_all add: failed_with_def)
  from l obtain s where s: "snd (last evs) = Fail s" "e = thrown (fst (last evs)) s"
    by (cases "snd (last evs)") simp_all
  from ne have "evs = butlast evs @ [last evs]" by simp
  with s have "evs = butlast evs @ [(fst (last evs), Fail s)]"
    by (metis prod.collapse)
  with ok s show ?thesis by blast
qed

lemma reached:
  assumes run: "website_default h i (start w st) = (r, m')"
    and ok: "setup_resolved (trace m')"
    and x: "\<And>name. x \<in> set (deploy_calls h (resolve_inputs h st i) st name)"
    and early: "stage x \<le> 1"
  shows "x \<in> set (calls m')"
proof -
  from run_prefix [OF run] obtain name zs
    where p: "deploy_calls h (resolve_inputs h st i) st name = calls m' @ zs"
      and s: "\<forall>out. r = Inr out \<longrightarrow> zs = [] \<and> list_all resolved (trace m')"
      and f: "\<forall>e. r = Inl e \<longrightarrow> failed_with (trace m') e \<and> stored m' = st"
    by blast
  have mem0: "x \<in> set (calls m' @ zs)"
    using x [of name] by (simp only: p)
  show ?thesis
  proof (cases r)
    case (Inr out)
    from s Inr have "zs = []" by blast
    with mem0 show ?thesis by simp
  next
    case (Inl e)
    from f Inl have "failed_with (trace m') e" by blast
    from failed_last [OF this] obtain pre c s'
      where t: "trace m' = pre @ [(c, Fail s')]" by blast
    from ok have "\<not> is_setup c"
      unfolding t setup_resolved_def by (simp add: resolved_def)
    then have c: "1 < stage c" by (simp add: is_setup_stage)
    have cs: "calls m' = map fst pre @ [c]" unfolding calls_def t by simp
    have eq: "calls m' @ zs = map fst pre @ c # zs" unfolding cs by simp
    have so: "sorted (map stage (map fst pre @ c # zs))"
      using sorted_plan [of h "resolve_inputs h st i" st name] by (simp only: p eq)
    have mem: "x \<in> set (map fst pre @ c # zs)"
      using mem0 by (simp only: eq)
    from early c have "stage x < stage c" by linarith
    with so mem have "x \<in> set (map fst pre)"
      by (rule earlier_stage_done)
    then show ?thesis unfolding cs by simp
  qed
qed

lemmas example_defs =
  example_host_def rejects_nothing_def rejects_exec_def no_inputs_def inputs_b_def state_a_def
  state_x_def empty_state_def json_quote_def json_quote_char_def hex_digit_def

lemmas run_defs =
  website_default_def website_remove_def resolve_inputs_def provision_website_bucket_def
  provision_domain_def drift_check_def env_bundle_def env_guard_def env_script_def
  build_hook_def hook_message_def upload_and_persist_def dirToUploadPath_def website_url_def
  assign_state_def make_outputs_def save_def perform_def andThen_def succeed_def throw_def
  with_state_def modify_state_def try_catch_def when_truthy_def start_def calls_def
  or_else_def truthy_def Let_def

lemma resolve_domain: "config.domain (resolve_inputs h st i) = inputs.domain i"
  by (simp add: resolve_inputs_def Let_def)

lemma resolve_env: "config.env (resolve_inputs h st i) = inputs.env i"
  by (simp add: resolve_inputs_def Let_def)

lemma calls_in_plan:
  assumes "website_default h i (start w st) = (r, m')"
  shows "\<exists>name. set (calls m') \<subseteq> set (deploy_calls h (resolve_inputs h st i) st name)"
proof -
  from run_prefix [OF assms] obtain name zs
    where "deploy_calls h (resolve_inputs h st i) st name = calls m' @ zs"
    by blast
  then have "set (calls m') \<subseteq> set (deploy_calls h (resolve_inputs h st i) st name)"
    by simp
  then show ?thesis ..
qed

lemma delete_call_origin:
  assumes run: "website_default h i (start w st) = (r, m')"
    and c: "ConfigureDomainForBucket client dn reg (Some action) \<in> set (calls m')"
  shows "\<exists>old. state.domain st = Some old \<and> old \<noteq> [] \<and> state.domain st \<noteq> inputs.domain i \<and>
           client = Some (config.region (resolve_inputs h st i)) \<and> reg = state.region st \<and>
           action = ''DELETE'' \<and> (dn = old \<or> dn = ''www.'' @ old)"
proof -
  from calls_in_plan [OF run] c obtain name
    where "ConfigureDomainForBucket client dn reg (Some action)
             \<in> set (deploy_calls h (resolve_inputs h st i) st name)"
    by blast
  from plan_delete [OF this] show ?thesis by (simp only: resolve_domain)
qed

lemma before_in_run:
  assumes run: "website_default h i (start w st) = (r, m')"
    and split: "calls m' = xs @ c # ys"
    and x: "\<And>name. x \<in> set (deploy_calls h (resolve_inputs h st i) st name)"
    and lt: "stage x < stage c"
  shows "x \<in> set xs"
proof -
  from run_prefix [OF run] obtain name zs
    where p: "deploy_calls h (resolve_inputs h st i) st name = calls m' @ zs"
    by blast
  have eq: "calls m' @ zs = xs @ c # (ys @ zs)" unfolding split by simp
  have so: "sorted (map stage (xs @ c # (ys @ zs)))"
    using sorted_plan [of h "resolve_inputs h st i" st name] by (simp only: p eq)
  have mem: "x \<in> set (xs @ c # (ys @ zs))"
    using x [of name] by (simp only: p eq)
  from so mem lt show ?thesis by (rule earlier_stage_done)
qed

text \<open>The example run: the state records \<open>a.com\<close>, the inputs request \<open>b.com\<close>, and no
  call is rejected.\<close>

lemma example_run_a_b:
  "website_default (example_host rejects_nothing) inputs_b (start () state_a) =
     (Inr \<lparr>outputs.url = ''http://x.s3-website-us-west-2.amazonaws.com'',
           outputs.env = [(''API'', ''https://x'')],
           outputs.domain = Some ''http://b.com''\<rparr>,
      \<lparr>world = (),
       trace =
         [(Load ''@serverless/aws-s3'' ''websiteBucket'', Ok ''''),
          (DeployBucket ''websiteBucket'' ''x'' False ''us-west-2'', Ok ''x''),
          (ConfigureBucketForHosting ''us-west-2'' ''x'', Ok ''''),
          (Load ''@serverless/aws-s3'' ''redirectBucket'', Ok ''''),
          (DeployBucket ''redirectBucket'' ''www.b.com'' False ''us-west-2'', Ok ''www.b.com''),
          (ConfigureBucketForRedirect ''us-west-2'' ''www.b.com'' ''b.com'', Ok ''''),
          (ConfigureDomainForBucket (Some ''us-west-2'') ''b.com'' (Some ''us-west-2'') None,
           Ok ''''),
          (ConfigureDomainForBucket (Some ''us-west-2'') ''www.b.com'' (Some ''us-west-2'') None,
           Ok ''''),
          (ConfigureDomainForBucket (Some ''us-west-2'') ''a.com'' (Some ''eu-west-1'')
             (Some ''DELETE''), Ok ''''),
          (ConfigureDomainForBucket (Some ''us-west-2'') ''www.a.com'' (Some ''eu-west-1'')
             (Some ''DELETE''), Ok ''''),
          (WriteFile ''/srv/site/env.js''
             (''window.env = {};\<newline>window.env.API = '' @ [CHR 0x22] @ ''https://x'' @
              [CHR 0x22] @ '';\<newline>''), Ok ''''),
          (Exec ''npm run build'' ''/srv/site'', Ok ''''),
          (Upload ''websiteBucket'' ''/srv/site/dist'', Ok ''''),
          (Save \<lparr>state.bucketName = Some ''x'', state.domain = Some ''b.com'',
                  state.region = Some ''us-west-2'',
                  state.url = Some ''http://x.s3-website-us-west-2.amazonaws.com''\<rparr>, Ok '''')],
       this_state =
         \<lparr>state.bucketName = Some ''x'', state.domain = Some ''b.com'',
          state.region = Some ''us-west-2'',
          state.url = Some ''http://x.s3-website-us-west-2.amazonaws.com''\<rparr>,
       stored =
         \<lparr>state.bucketName = Some ''x'', state.domain = Some ''b.com'',
          state.region = Some ''us-west-2'',
          state.url = Some ''http://x.s3-website-us-west-2.amazonaws.com''\<rparr>\<rparr>)"
  by (simp add: run_defs example_defs)

lemma resolved_butlast: "list_all resolved evs \<Longrightarrow> list_all resolved (butlast evs)"
  by (auto simp: list_all_iff dest: in_set_butlastD)

text \<open>The two shapes of a run: all planned calls were made and resolved; or the calls
  made are the planned calls up to one that was rejected, and the state of the store is
  untouched.\<close>

lemma run_shape:
  assumes "website_default h i (start w st) = (r, m')"
  shows "(\<exists>out name. r = Inr out \<and> calls m' = deploy_calls h (resolve_inputs h st i) st name \<and>
            list_all resolved (trace m')) \<or>
         (\<exists>e name pre c s zs. r = Inl e \<and> trace m' = pre @ [(c, Fail s)] \<and>
            list_all resolved pre \<and> e = thrown c s \<and> stored m' = st \<and>
            deploy_calls h (resolve_inputs h st i) st name = map fst pre @ c # zs)"
proof -
  from run_prefix [OF assms] obtain name zs
    where p: "deploy_calls h (resolve_inputs h st i) st name = calls m' @ zs"
      and s: "\<forall>out. r = Inr out \<longrightarrow> zs = [] \<and> list_all resolved (trace m')"
      and f: "\<forall>e. r = Inl e \<longrightarrow> failed_with (trace m') e \<and> stored m' = st"
    by blast
  show ?thesis
  proof (cases r)
    case (Inr out)
    with s have "zs = []" and ok: "list_all resolved (trace m')" by simp_all
    with p have "calls m' = deploy_calls h (resolve_inputs h st i) st name" by simp
    with Inr ok show ?thesis by blast
  next
    case (Inl e)
    with f have fw: "failed_with (trace m') e" and sto: "stored m' = st" by simp_all
    from failed_last [OF fw] obtain pre c s'
      where t: "trace m' = pre @ [(c, Fail s')]" and ok: "list_all resolved pre"
        and e: "e = thrown c s'"
      by blast
    have cs: "calls m' = map fst pre @ [c]" unfolding calls_def t by simp
    have "deploy_calls h (resolve_inputs h st i) st name = map fst pre @ c # zs"
      unfolding p cs by simp
    with Inl t ok e sto show ?thesis by blast
  qed
qed

lemma last_call_is_save:
  assumes "ps @ [u, z] = cs @ zs" and "x \<in> set cs" and "x \<notin> set ps" and "x \<noteq> u"
  shows "cs = ps @ [u, z] \<and> x = z"
proof (cases zs rule: rev_cases)
  case Nil
  with assms show ?thesis by auto
next
  case (snoc zs' y)
  with assms(1) have "(ps @ [u]) @ [z] = (cs @ zs') @ [y]" by simp
  then have "ps @ [u] = cs @ zs'" by (simp only: append1_eq_conv)
  then have "set cs \<subseteq> set (ps @ [u])" by (metis set_append Un_upper1)
  with assms(2,3,4) show ?thesis by auto
qed

text \<open>The example run with a rejected build hook.\<close>

lemma example_run_hook_fails:
  "website_default (example_host rejects_exec) inputs_b (start () state_a) =
     (Inl (Error (''Failed building website via '' @ [CHR 0x22] @ ''npm run build'' @ [CHR 0x22] @
            '' due to the following error: '' @ [CHR 0x22] @ ''boom'' @ [CHR 0x22])),
      \<lparr>world = (),
       trace =
         [(Load ''@serverless/aws-s3'' ''websiteBucket'', Ok ''''),
          (DeployBucket ''websiteBucket'' ''x'' False ''us-west-2'', Ok ''x''),
          (ConfigureBucketForHosting ''us-west-2'' ''x'', Ok ''''),
          (Load ''@serverless/aws-s3'' ''redirectBucket'', Ok ''''),
          (DeployBucket ''redirectBucket'' ''www.b.com'' False ''us-west-2'', Ok ''www.b.com''),
          (ConfigureBucketForRedirect ''us-west-2'' ''www.b.com'' ''b.com'', Ok ''''),
          (ConfigureDomainForBucket (Some ''us-west-2'') ''b.com'' (Some ''us-west-2'') None,
           Ok ''''),
          (ConfigureDomainForBucket (Some ''us-west-2'') ''www.b.com'' (Some ''us-west-2'') None,
           Ok ''''),
          (ConfigureDomainForBucket (Some ''us-west-2'') ''a.com'' (Some ''eu-west-1'')
             (Some ''DELETE''), Ok ''''),
          (ConfigureDomainForBucket (Some ''us-west-2'') ''www.a.com'' (Some ''eu-west-1'')
             (Some ''DELETE''), Ok ''''),
          (WriteFile ''/srv/site/env.js''
             (''window.env = {};\<newline>window.env.API = '' @ [CHR 0x22] @ ''https://x'' @
              [CHR 0x22] @ '';\<newline>''), Ok ''''),
          (Exec ''npm run build'' ''/srv/site'', Fail ''boom'')],
       this_state = state_a,
       stored = state_a\<rparr>)"
  by (simp add: run_defs example_defs)

lemma foldl_append_string:
  "foldl (\<lambda>script kv. script @ f kv) acc e = acc @ concat (map f e)"
  by (induction e arbitrary: acc) simp_all

lemma env_script_concat:
  "env_script h e =
     ''window.env = {};\<newline>'' @
     concat (map (\<lambda>(k, v). ''window.env.'' @ k @ '' = '' @ JSON_stringify h v @ '';\<newline>'') e)"
proof -
  have "(\<lambda>script (k, v). script @ ''window.env.'' @ k @ '' = '' @ JSON_stringify h v @ '';\<newline>'')
      = (\<lambda>script kv. script @
           (\<lambda>(k, v). ''window.env.'' @ k @ '' = '' @ JSON_stringify h v @ '';\<newline>'') kv)"
    by (simp add: fun_eq_iff split: prod.split)
  then show ?thesis
    unfolding env_script_def by (simp only: foldl_append_string)
qed

lemma reached_write:
  assumes run: "website_default h i (start w st) = (r, m')"
    and ok: "setup_resolved (trace m')"
    and x: "\<And>name. WriteFile p c \<in> set (deploy_calls h (resolve_inputs h st i) st name)"
  shows "WriteFile p c \<in> set (calls m')"
proof -
  let ?cfg = "resolve_inputs h st i"
  from run_shape [OF run] show ?thesis
  proof (elim disjE exE conjE)
    fix out name
    assume "calls m' = deploy_calls h ?cfg st name"
    with x [of name] show ?thesis by simp
  next
    fix e name pre c0 s0 zs
    assume t: "trace m' = pre @ [(c0, Fail s0)]"
      and p: "deploy_calls h ?cfg st name = map fst pre @ c0 # zs"
    from ok have ns: "\<not> is_setup c0"
      unfolding t setup_resolved_def by (simp add: resolved_def)
    have cs: "calls m' = map fst pre @ [c0]" unfolding calls_def t by simp
    have so: "sorted (map stage (map fst pre @ c0 # zs))"
      using sorted_plan [of h ?cfg st name] by (simp only: p)
    have mem: "WriteFile p c \<in> set (map fst pre @ c0 # zs)"
      using x [of name] by (simp only: p)
    show ?thesis
    proof (cases "stage c0 = 2")
      case True
      then obtain p0 c1 where c0: "c0 = WriteFile p0 c1"
        by (cases c0 rule: stage.cases) simp_all
      have "WriteFile p0 c1 \<in> set (deploy_calls h ?cfg st name)"
        unfolding p c0 by simp
      from plan_write [OF this] plan_write [OF x [of name]]
      have "WriteFile p0 c1 = WriteFile p c" by auto
      with cs c0 show ?thesis by simp
    next
      case False
      with ns have "stage (WriteFile p c) < stage c0"
        by (cases c0 rule: stage.cases) simp_all
      with so mem have "WriteFile p c \<in> set (map fst pre)"
        by (rule earlier_stage_done)
      with cs show ?thesis by simp
    qed
  qed
qed

lemma emits_clear:
  "emits st (andThen (modify_state (\<lambda>st. empty_state)) (\<lambda>_.
     andThen (save h) (\<lambda>_. succeed ()))) [Save empty_state]"
  by (auto simp: emits_def succeed_def andThen_def perform_def save_def modify_state_def
      failed_with_def resolved_def split: prod.split reply.split)

lemma clear_success:
  "andThen (modify_state (\<lambda>st. empty_state)) (\<lambda>_.
     andThen (save h) (\<lambda>_. succeed ())) m = (Inr u, m') \<Longrightarrow> stored m' = empty_state"
  by (auto simp: succeed_def andThen_def perform_def save_def modify_state_def
      split: prod.splits reply.splits)

lemma emits_unbind_domain:
  "emits st (with_state (\<lambda>st. when_truthy (state.domain st) (\<lambda>d.
        andThen (perform h (ConfigureDomainForBucket
                   (state.region st) d (state.region st) (Some ''DELETE''))) (\<lambda>_.
        andThen (perform h (ConfigureDomainForBucket
                   (state.region st) (''www.'' @ d) (state.region st) (Some ''DELETE''))) (\<lambda>_.
        andThen (perform h (Load ''@serverless/aws-s3'' ''redirectBucket'')) (\<lambda>redirectBucket.
        andThen (perform h (RemoveBucket ''redirectBucket'')) (\<lambda>_.
        succeed ())))))))
     (case state.domain st of
        None \<Rightarrow> []
      | Some d \<Rightarrow>
          if d \<noteq> [] then
            [ConfigureDomainForBucket (state.region st) d (state.region st) (Some ''DELETE''),
             ConfigureDomainForBucket (state.region st) (''www.'' @ d) (state.region st)
               (Some ''DELETE''),
             Load ''@serverless/aws-s3'' ''redirectBucket'',
             RemoveBucket ''redirectBucket'']
          else [])"
  unfolding when_truthy_def
  by (rule emits_with_state) (auto split: option.split intro!: emits_step emits_succeed)

lemma keeps_unbind_domain:
  "keeps (with_state (\<lambda>st. when_truthy (state.domain st) (\<lambda>d.
        andThen (perform h (ConfigureDomainForBucket
                   (state.region st) d (state.region st) (Some ''DELETE''))) (\<lambda>_.
        andThen (perform h (ConfigureDomainForBucket
                   (state.region st) (''www.'' @ d) (state.region st) (Some ''DELETE''))) (\<lambda>_.
        andThen (perform h (Load ''@serverless/aws-s3'' ''redirectBucket'')) (\<lambda>redirectBucket.
        andThen (perform h (RemoveBucket ''redirectBucket'')) (\<lambda>_.
        succeed ())))))))"
  by (intro keeps_with_state keeps_when_truthy keeps_step keeps_succeed)

lemma emits_remove: "emits st (website_remove h) (remove_calls st)"
proof -
  have "emits st (website_remove h)
     (Load ''@serverless/aws-s3'' ''websiteBucket'' # RemoveBucket ''websiteBucket'' #
      (case state.domain st of
        None \<Rightarrow> []
      | Some d \<Rightarrow>
          if d \<noteq> [] then
            [ConfigureDomainForBucket (state.region st) d (state.region st) (Some ''DELETE''),
             ConfigureDomainForBucket (state.region st) (''www.'' @ d) (state.region st)
               (Some ''DELETE''),
             Load ''@serverless/aws-s3'' ''redirectBucket'',
             RemoveBucket ''redirectBucket'']
          else []) @ [Save empty_state])"
    unfolding website_remove_def
    by (intro emits_step emits_andThen emits_unbind_domain keeps_unbind_domain emits_clear)
      simp_all
  then show ?thesis by (simp add: remove_calls_def)
qed

lemma remove_run:
  assumes "website_remove h (start w st) = (r, m')"
  shows "(\<forall>u. r = Inr u \<longrightarrow> calls m' = remove_calls st \<and> list_all resolved (trace m')) \<and>
         (\<forall>e. r = Inl e \<longrightarrow> prefix (calls m') (remove_calls st) \<and> stored m' = st)"
proof -
  have st: "this_state (start w st) = st" by (simp add: start_def)
  from emits_remove [of st h] st assms
  have "\<exists>evs. trace m' = trace (start w st) @ evs \<and>
      (case r of Inr x \<Rightarrow> map fst evs = remove_calls st \<and> list_all resolved evs
               | Inl e \<Rightarrow> prefix (map fst evs) (remove_calls st) \<and> failed_with evs e \<and>
                   stored m' = stored (start w st))"
    unfolding emits_def by fastforce
  then obtain evs where t: "trace m' = trace (start w st) @ evs"
    and c: "case r of Inr x \<Rightarrow> map fst evs = remove_calls st \<and> list_all resolved evs
               | Inl e \<Rightarrow> prefix (map fst evs) (remove_calls st) \<and> failed_with evs e \<and>
                   stored m' = stored (start w st)"
    by blast
  from t have t': "trace m' = evs" by (simp add: start_def)
  from c show ?thesis
    by (cases r) (simp_all add: calls_def t' start_def)
qed

lemma remove_success:
  assumes "website_remove h (start w st) = (Inr u, m')"
  shows "stored m' = empty_state"
proof -
  from assms [unfolded website_remove_def] obtain x1 m1 where
    "andThen (perform h (RemoveBucket ''websiteBucket'')) (\<lambda>_.
     andThen (with_state (\<lambda>st. when_truthy (state.domain st) (\<lambda>d.
        andThen (perform h (ConfigureDomainForBucket
                   (state.region st) d (state.region st) (Some ''DELETE''))) (\<lambda>_.
        andThen (perform h (ConfigureDomainForBucket
                   (state.region st) (''www.'' @ d) (state.region st) (Some ''DELETE''))) (\<lambda>_.
        andThen (perform h (Load ''@serverless/aws-s3'' ''redirectBucket'')) (\<lambda>redirectBucket.
        andThen (perform h (RemoveBucket ''redirectBucket'')) (\<lambda>_.
        succeed ()))))))) (\<lambda>_.
     andThen (modify_state (\<lambda>st. empty_state)) (\<lambda>_.
     andThen (save h) (\<lambda>_.
     succeed ())))) m1 = (Inr u, m')"
    by (rule andThen_InrE)
  then obtain x2 m2 where
    "andThen (with_state (\<lambda>st. when_truthy (state.domain st) (\<lambda>d.
        andThen (perform h (ConfigureDomainForBucket
                   (state.region st) d (state.region st) (Some ''DELETE''))) (\<lambda>_.
        andThen (perform h (ConfigureDomainForBucket
                   (state.region st) (''www.'' @ d) (state.region st) (Some ''DELETE''))) (\<lambda>_.
        andThen (perform h (Load ''@serverless/aws-s3'' ''redirectBucket'')) (\<lambda>redirectBucket.
        andThen (perform h (RemoveBucket ''redirectBucket'')) (\<lambda>_.
        succeed ()))))))) (\<lambda>_.
     andThen (modify_state (\<lambda>st. empty_state)) (\<lambda>_.
     andThen (save h) (\<lambda>_.
     succeed ()))) m2 = (Inr u, m')"
    by (rule andThen_InrE)
  then obtain x3 m3 where
    "andThen (modify_state (\<lambda>st. empty_state)) (\<lambda>_.
     andThen (save h) (\<lambda>_.
     succeed ())) m3 = (Inr u, m')"
    by (rule andThen_InrE)
  then show ?thesis by (rule clear_success)
qed

text \<open>The example runs of \<open>remove\<close>: with a domain in the state, and without.\<close>

lemma example_remove_a:
  "website_remove (example_host rejects_nothing) (start () state_a) =
     (Inr (),
      \<lparr>world = (),
       trace =
         [(Load ''@serverless/aws-s3'' ''websiteBucket'', Ok ''''),
          (RemoveBucket ''websiteBucket'', Ok ''''),
          (ConfigureDomainForBucket (Some ''eu-west-1'') ''a.com'' (Some ''eu-west-1'')
             (Some ''DELETE''), Ok ''''),
          (ConfigureDomainForBucket (Some ''eu-west-1'') ''www.a.com'' (Some ''eu-west-1'')
             (Some ''DELETE''), Ok ''''),
          (Load ''@serverless/aws-s3'' ''redirectBucket'', Ok ''''),
          (RemoveBucket ''redirectBucket'', Ok ''''),
          (Save empty_state, Ok '''')],
       this_state = empty_state,
       stored = empty_state\<rparr>)"
  by (simp add: run_defs example_host_def rejects_nothing_def state_a_def)

lemma example_remove_x:
  "website_remove (example_host rejects_nothing) (start () state_x) =
     (Inr (),
      \<lparr>world = (),
       trace =
         [(Load ''@serverless/aws-s3'' ''websiteBucket'', Ok ''''),
          (RemoveBucket ''websiteBucket'', Ok ''''),
          (Save empty_state, Ok '''')],
       this_state = empty_state,
       stored = empty_state\<rparr>)"
  by (simp add: run_defs example_host_def rejects_nothing_def state_x_def)

section \<open>Input normalization\<close>

text \<open>
  Claim C3. The bucket name is the one of the state when that is a non-empty string, else
  the requested domain when that is a non-empty string, else the identifier that the context
  generates; it is not empty when the generated identifier is not. The region is
  \<open>us-east-1\<close> when none is requested.
\<close>

theorem bucketName_resolution:
  "(state.bucketName st = Some x \<and> x \<noteq> [] \<longrightarrow>
      config.bucketName (resolve_inputs h st i) = x) \<and>
   (\<not> truthy (state.bucketName st) \<and> inputs.domain i = Some d \<and> d \<noteq> [] \<longrightarrow>
      config.bucketName (resolve_inputs h st i) = d) \<and>
   (\<not> truthy (state.bucketName st) \<and> \<not> truthy (inputs.domain i) \<longrightarrow>
      config.bucketName (resolve_inputs h st i) = resourceId h) \<and>
   (resourceId h \<noteq> [] \<longrightarrow> config.bucketName (resolve_inputs h st i) \<noteq> []) \<and>
   (\<not> truthy (inputs.region i) \<longrightarrow> config.region (resolve_inputs h st i) = ''us-east-1'')"
  by (auto simp: resolve_inputs_def Let_def or_else_def truthy_def split: option.splits)

theorem bucketName_resolution_witness:
  "config.bucketName (resolve_inputs (example_host rejects_nothing) state_a inputs_b) = ''x'' \<and>
   config.bucketName (resolve_inputs (example_host rejects_nothing) empty_state inputs_b)
     = ''b.com'' \<and>
   config.bucketName (resolve_inputs (example_host rejects_nothing) empty_state no_inputs)
     = ''website-k3x9'' \<and>
   config.bucketName (resolve_inputs (example_host rejects_nothing) empty_state no_inputs) \<noteq> [] \<and>
   config.region (resolve_inputs (example_host rejects_nothing) empty_state no_inputs)
     = ''us-east-1''"
  using
    bucketName_resolution [where st = state_a and x = "''x''" and i = inputs_b
      and h = "example_host rejects_nothing"]
    bucketName_resolution [where st = empty_state and d = "''b.com''" and i = inputs_b
      and h = "example_host rejects_nothing"]
    bucketName_resolution [where st = empty_state and i = no_inputs
      and h = "example_host rejects_nothing"]
  by (simp add: state_a_def inputs_b_def no_inputs_def empty_state_def truthy_def
      example_host_def)

text \<open>
  Claim C10. When \<open>process.cwd()\<close> and \<open>path.resolve\<close> return non-empty strings (they
  return absolute paths), \<open>code.root\<close> is a non-empty string after lines 34 and 35, whatever
  the inputs are: the resolved path when a non-empty one is supplied, the working directory
  otherwise. The third conjunct of the guard of line 93 is then true, and the guard holds
  exactly when \<open>env\<close> is supplied with at least one key. So the step of lines 93 to 105 is
  the step that writes the bundle when \<open>env\<close> has at least one key and does nothing
  otherwise, with no case left for an undefined \<open>code.root\<close>. In a run, a file is written
  only when \<open>env\<close> has at least one key, and then it is the bundle; and when \<open>env\<close> has at
  least one key and no provisioning or DNS call is rejected, the bundle is written.
\<close>

theorem code_root_never_empty:
  assumes "cwd h \<noteq> []" and "\<forall>p. path_resolve h p \<noteq> []"
  shows "config.root (resolve_inputs h st i) \<noteq> [] \<and>
         config.root (resolve_inputs h st i) =
           (case inputs.code i of
              None \<Rightarrow> cwd h
            | Some c \<Rightarrow>
                (case code.root c of
                   None \<Rightarrow> cwd h
                 | Some p \<Rightarrow> if p \<noteq> [] then path_resolve h p else cwd h)) \<and>
         env_guard (resolve_inputs h st i) =
           (case inputs.env i of None \<Rightarrow> False | Some e \<Rightarrow> e \<noteq> []) \<and>
         env_bundle h (resolve_inputs h st i) =
           (case inputs.env i of
              None \<Rightarrow> succeed ()
            | Some e \<Rightarrow>
                if e \<noteq> [] then
                  andThen (perform h (WriteFile
                     (path_join h (config.root (resolve_inputs h st i)) ''env.js'')
                     (env_script h e))) (\<lambda>_. succeed ())
                else succeed ()) \<and>
         (website_default h i (start w st) = (r, m') \<longrightarrow>
            (WriteFile path content \<in> set (calls m') \<longrightarrow>
               (\<exists>e. inputs.env i = Some e \<and> e \<noteq> [] \<and>
                  path = path_join h (config.root (resolve_inputs h st i)) ''env.js'' \<and>
                  content = env_script h e)) \<and>
            (inputs.env i = Some e' \<and> e' \<noteq> [] \<and> setup_resolved (trace m') \<longrightarrow>
               WriteFile (path_join h (config.root (resolve_inputs h st i)) ''env.js'')
                 (env_script h e') \<in> set (calls m')))"
proof -
  let ?cfg = "resolve_inputs h st i"
  from assms have r: "config.root ?cfg \<noteq> []"
    by (simp add: resolve_inputs_def Let_def split: option.split)
  have c: "config.root ?cfg =
           (case inputs.code i of
              None \<Rightarrow> cwd h
            | Some c \<Rightarrow>
                (case code.root c of
                   None \<Rightarrow> cwd h
                 | Some p \<Rightarrow> if p \<noteq> [] then path_resolve h p else cwd h))"
    by (simp add: resolve_inputs_def Let_def split: option.split)
  have env: "config.env ?cfg = inputs.env i"
    by (rule resolve_env)
  from r env have g: "env_guard ?cfg =
           (case inputs.env i of None \<Rightarrow> False | Some e \<Rightarrow> e \<noteq> [])"
    by (simp add: env_guard_def split: option.split)
  have b: "env_bundle h ?cfg =
           (case inputs.env i of
              None \<Rightarrow> succeed ()
            | Some e \<Rightarrow>
                if e \<noteq> [] then
                  andThen (perform h (WriteFile (path_join h (config.root ?cfg) ''env.js'')
                     (env_script h e))) (\<lambda>_. succeed ())
                else succeed ())"
    unfolding env_bundle_def g env by (simp split: option.split)
  have run: "(WriteFile path content \<in> set (calls m') \<longrightarrow>
               (\<exists>e. inputs.env i = Some e \<and> e \<noteq> [] \<and>
                  path = path_join h (config.root ?cfg) ''env.js'' \<and>
                  content = env_script h e)) \<and>
            (inputs.env i = Some e' \<and> e' \<noteq> [] \<and> setup_resolved (trace m') \<longrightarrow>
               WriteFile (path_join h (config.root ?cfg) ''env.js'') (env_script h e')
                 \<in> set (calls m'))"
    if w: "website_default h i (start w st) = (r, m')"
  proof (intro conjI impI)
    assume wr: "WriteFile path content \<in> set (calls m')"
    from calls_in_plan [OF w] obtain name
      where "set (calls m') \<subseteq> set (deploy_calls h ?cfg st name)" by blast
    with wr have "WriteFile path content \<in> set (deploy_calls h ?cfg st name)" by blast
    from plan_write [OF this]
    show "\<exists>e. inputs.env i = Some e \<and> e \<noteq> [] \<and>
               path = path_join h (config.root ?cfg) ''env.js'' \<and> content = env_script h e"
      by (auto simp: resolve_env)
  next
    assume a: "inputs.env i = Some e' \<and> e' \<noteq> [] \<and> setup_resolved (trace m')"
    then have e: "config.env ?cfg = Some e'" and ne: "e' \<noteq> []"
      and ok: "setup_resolved (trace m')"
      by (simp_all add: resolve_env)
    show "WriteFile (path_join h (config.root ?cfg) ''env.js'') (env_script h e')
            \<in> set (calls m')"
      by (rule reached_write [OF w ok]) (rule plan_env [OF e ne r])
  qed
  from r c g b run show ?thesis by blast
qed

theorem code_root_never_empty_witness:
  "cwd (example_host rejects_nothing) \<noteq> [] \<and>
   (\<forall>p. path_resolve (example_host rejects_nothing) p \<noteq> []) \<and>
   config.root (resolve_inputs (example_host rejects_nothing) state_a inputs_b) = ''/srv/site'' \<and>
   env_guard (resolve_inputs (example_host rejects_nothing) state_a inputs_b) \<and>
   inputs.env inputs_b = Some [(''API'', ''https://x'')] \<and>
   setup_resolved
     (trace (snd (website_default (example_host rejects_nothing) inputs_b (start () state_a)))) \<and>
   WriteFile ''/srv/site/env.js''
       (env_script (example_host rejects_nothing) [(''API'', ''https://x'')])
     \<in> set (calls (snd (website_default (example_host rejects_nothing) inputs_b
          (start () state_a)))) \<and>
   config.root (resolve_inputs (example_host rejects_nothing) state_a no_inputs) = ''/home/site'' \<and>
   \<not> env_guard (resolve_inputs (example_host rejects_nothing) state_a no_inputs) \<and>
   inputs.env no_inputs = None \<and>
   WriteFile ''/home/site/env.js'' ''window.env = {};\<newline>''
     \<notin> set (calls (snd (website_default (example_host rejects_nothing) no_inputs
          (start () state_a))))"
proof -
  have c: "cwd (example_host rejects_nothing) \<noteq> []"
    by (simp add: example_host_def)
  have p: "\<forall>p. path_resolve (example_host rejects_nothing) p \<noteq> []"
    by (auto simp: example_host_def)
  have run: "website_default (example_host rejects_nothing) inputs_b (start () state_a) =
      (fst (website_default (example_host rejects_nothing) inputs_b (start () state_a)),
       snd (website_default (example_host rejects_nothing) inputs_b (start () state_a)))"
    by simp
  have run': "website_default (example_host rejects_nothing) no_inputs (start () state_a) =
      (fst (website_default (example_host rejects_nothing) no_inputs (start () state_a)),
       snd (website_default (example_host rejects_nothing) no_inputs (start () state_a)))"
    by simp
  have e: "inputs.env inputs_b = Some [(''API'', ''https://x'')]" "inputs.env no_inputs = None"
    by (simp_all add: inputs_b_def no_inputs_def)
  have ok: "setup_resolved
     (trace (snd (website_default (example_host rejects_nothing) inputs_b (start () state_a))))"
    by (simp add: example_run_a_b setup_resolved_def resolved_def)
  have rt: "config.root (resolve_inputs (example_host rejects_nothing) state_a inputs_b)
      = ''/srv/site''"
    "config.root (resolve_inputs (example_host rejects_nothing) state_a no_inputs) = ''/home/site''"
    by (simp_all add: resolve_inputs_def inputs_b_def no_inputs_def example_host_def Let_def)
  have pj: "path_join (example_host rejects_nothing) ''/srv/site'' ''env.js'' = ''/srv/site/env.js''"
    by (simp add: example_host_def)
  note t = code_root_never_empty [OF c p, where st = state_a and i = inputs_b and w = "()"
      and r = "fst (website_default (example_host rejects_nothing) inputs_b (start () state_a))"
      and m' = "snd (website_default (example_host rejects_nothing) inputs_b (start () state_a))"
      and e' = "[(''API'', ''https://x'')]" and path = "[]" and content = "[]"]
  note t' = code_root_never_empty [OF c p, where st = state_a and i = no_inputs and w = "()"
      and r = "fst (website_default (example_host rejects_nothing) no_inputs (start () state_a))"
      and m' = "snd (website_default (example_host rejects_nothing) no_inputs (start () state_a))"
      and e' = "[]" and path = "''/home/site/env.js''"
      and content = "''window.env = {};\<newline>''"]
  from t [THEN conjunct2, THEN conjunct2, THEN conjunct1] e
  have g: "env_guard (resolve_inputs (example_host rejects_nothing) state_a inputs_b)"
    by simp
  from t' [THEN conjunct2, THEN conjunct2, THEN conjunct1] e
  have g': "\<not> env_guard (resolve_inputs (example_host rejects_nothing) state_a no_inputs)"
    by simp
  from t [THEN conjunct2, THEN conjunct2, THEN conjunct2, THEN conjunct2] run e ok
  have wr: "WriteFile ''/srv/site/env.js''
       (env_script (example_host rejects_nothing) [(''API'', ''https://x'')])
     \<in> set (calls (snd (website_default (example_host rejects_nothing) inputs_b
          (start () state_a))))"
    by (simp add: rt pj)
  from t' [THEN conjunct2, THEN conjunct2, THEN conjunct2, THEN conjunct2] run' e
  have nw: "WriteFile ''/home/site/env.js'' ''window.env = {};\<newline>''
     \<notin> set (calls (snd (website_default (example_host rejects_nothing) no_inputs
          (start () state_a))))"
    by auto
  from c p rt g g' e ok wr nw show ?thesis by blast
qed

section \<open>The alias records of the domain\<close>

text \<open>
  Claim C1, as stated: when the state records \<open>a.com\<close> and the inputs request \<open>b.com\<close>, no
  call that binds the new domain comes before the call that unbinds the old one. It fails:
  in the run of the example the alias record of \<open>b.com\<close> is bound by the call at index 6
  and the alias record of \<open>a.com\<close> is unbound by the call at index 8.
\<close>

theorem unbind_before_bind_counterexample:
  "position (ConfigureDomainForBucket (Some ''us-west-2'') ''b.com'' (Some ''us-west-2'') None)
     (calls (snd (website_default (example_host rejects_nothing) inputs_b (start () state_a))))
     = Some 6 \<and>
   position (ConfigureDomainForBucket (Some ''us-west-2'') ''a.com'' (Some ''eu-west-1'')
       (Some ''DELETE''))
     (calls (snd (website_default (example_host rejects_nothing) inputs_b (start () state_a))))
     = Some 8"
  by (simp add: example_run_a_b calls_def)

text \<open>
  Claim C1, amended: when the state records a domain \<open>a\<close> and the inputs request a
  different domain \<open>b\<close>, every call of the run that carries a mode flag (an unbind) is
  made after the two calls that bind \<open>b\<close> and \<open>www.b\<close>, it carries the mode \<open>DELETE\<close>, the
  region of the state and the domain \<open>a\<close> or \<open>www.a\<close>; and both unbind calls are made in
  every run in which no provisioning or DNS call is rejected.
\<close>

theorem unbind_follows_bind:
  assumes "website_default h i (start w st) = (r, m')"
    and "state.domain st = Some a" and "a \<noteq> []"
    and "inputs.domain i = Some b" and "b \<noteq> []" and "a \<noteq> b"
  shows "(calls m' = xs @ ConfigureDomainForBucket client dn reg (Some action) # ys \<longrightarrow>
            ConfigureDomainForBucket (Some (config.region (resolve_inputs h st i))) b
              (Some (config.region (resolve_inputs h st i))) None \<in> set xs \<and>
            ConfigureDomainForBucket (Some (config.region (resolve_inputs h st i))) (''www.'' @ b)
              (Some (config.region (resolve_inputs h st i))) None \<in> set xs \<and>
            action = ''DELETE'' \<and> reg = state.region st \<and> (dn = a \<or> dn = ''www.'' @ a)) \<and>
         (setup_resolved (trace m') \<longrightarrow>
            ConfigureDomainForBucket (Some (config.region (resolve_inputs h st i))) a
              (state.region st) (Some ''DELETE'') \<in> set (calls m') \<and>
            ConfigureDomainForBucket (Some (config.region (resolve_inputs h st i))) (''www.'' @ a)
              (state.region st) (Some ''DELETE'') \<in> set (calls m'))"
proof (intro conjI impI)
  let ?cfg = "resolve_inputs h st i"
  have d: "config.domain ?cfg = Some b" using assms(4) by (simp add: resolve_domain)
  have ne: "state.domain st \<noteq> config.domain ?cfg" using assms(2,6) d by simp
  {
    assume split: "calls m' = xs @ ConfigureDomainForBucket client dn reg (Some action) # ys"
    then have "ConfigureDomainForBucket client dn reg (Some action) \<in> set (calls m')" by simp
    from delete_call_origin [OF assms(1) this] assms(2)
    show "action = ''DELETE''" and "reg = state.region st" and "dn = a \<or> dn = ''www.'' @ a"
      by auto
    show "ConfigureDomainForBucket (Some (config.region ?cfg)) b (Some (config.region ?cfg)) None
            \<in> set xs"
      by (rule before_in_run [OF assms(1) split]) (rule plan_domain [OF d assms(5)], simp)
    show "ConfigureDomainForBucket (Some (config.region ?cfg)) (''www.'' @ b)
            (Some (config.region ?cfg)) None \<in> set xs"
      by (rule before_in_run [OF assms(1) split]) (rule plan_domain [OF d assms(5)], simp)
  }
  {
    assume ok: "setup_resolved (trace m')"
    show "ConfigureDomainForBucket (Some (config.region ?cfg)) a (state.region st)
            (Some ''DELETE'') \<in> set (calls m')"
      by (rule reached [OF assms(1) ok]) (rule plan_drift [OF assms(2,3) ne], simp)
    show "ConfigureDomainForBucket (Some (config.region ?cfg)) (''www.'' @ a) (state.region st)
            (Some ''DELETE'') \<in> set (calls m')"
      by (rule reached [OF assms(1) ok]) (rule plan_drift [OF assms(2,3) ne], simp)
  }
qed

theorem unbind_follows_bind_witness:
  "calls (snd (website_default (example_host rejects_nothing) inputs_b (start () state_a))) =
     [Load ''@serverless/aws-s3'' ''websiteBucket'',
      DeployBucket ''websiteBucket'' ''x'' False ''us-west-2'',
      ConfigureBucketForHosting ''us-west-2'' ''x'',
      Load ''@serverless/aws-s3'' ''redirectBucket'',
      DeployBucket ''redirectBucket'' ''www.b.com'' False ''us-west-2'',
      ConfigureBucketForRedirect ''us-west-2'' ''www.b.com'' ''b.com'',
      ConfigureDomainForBucket (Some ''us-west-2'') ''b.com'' (Some ''us-west-2'') None,
      ConfigureDomainForBucket (Some ''us-west-2'') ''www.b.com'' (Some ''us-west-2'') None] @
     ConfigureDomainForBucket (Some ''us-west-2'') ''a.com'' (Some ''eu-west-1'') (Some ''DELETE'') #
     [ConfigureDomainForBucket (Some ''us-west-2'') ''www.a.com'' (Some ''eu-west-1'')
        (Some ''DELETE''),
      WriteFile ''/srv/site/env.js''
        (''window.env = {};\<newline>window.env.API = '' @ [CHR 0x22] @ ''https://x'' @ [CHR 0x22] @
         '';\<newline>''),
      Exec ''npm run build'' ''/srv/site'',
      Upload ''websiteBucket'' ''/srv/site/dist'',
      Save \<lparr>state.bucketName = Some ''x'', state.domain = Some ''b.com'',
             state.region = Some ''us-west-2'',
             state.url = Some ''http://x.s3-website-us-west-2.amazonaws.com''\<rparr>] \<and>
   state.domain state_a = Some ''a.com'' \<and> inputs.domain inputs_b = Some ''b.com'' \<and>
   setup_resolved
     (trace (snd (website_default (example_host rejects_nothing) inputs_b (start () state_a)))) \<and>
   ConfigureDomainForBucket (Some ''us-west-2'') ''b.com'' (Some ''us-west-2'') None \<in> set
     [Load ''@serverless/aws-s3'' ''websiteBucket'',
      DeployBucket ''websiteBucket'' ''x'' False ''us-west-2'',
      ConfigureBucketForHosting ''us-west-2'' ''x'',
      Load ''@serverless/aws-s3'' ''redirectBucket'',
      DeployBucket ''redirectBucket'' ''www.b.com'' False ''us-west-2'',
      ConfigureBucketForRedirect ''us-west-2'' ''www.b.com'' ''b.com'',
      ConfigureDomainForBucket (Some ''us-west-2'') ''b.com'' (Some ''us-west-2'') None,
      ConfigureDomainForBucket (Some ''us-west-2'') ''www.b.com'' (Some ''us-west-2'') None] \<and>
   ConfigureDomainForBucket (Some ''us-west-2'') ''www.a.com'' (Some ''eu-west-1'')
     (Some ''DELETE'') \<in> set
     (calls (snd (website_default (example_host rejects_nothing) inputs_b (start () state_a))))"
proof -
  have run: "website_default (example_host rejects_nothing) inputs_b (start () state_a) =
      (fst (website_default (example_host rejects_nothing) inputs_b (start () state_a)),
       snd (website_default (example_host rejects_nothing) inputs_b (start () state_a)))"
    by simp
  have a: "state.domain state_a = Some ''a.com''" and a': "''a.com'' \<noteq> []"
    and b: "inputs.domain inputs_b = Some ''b.com''" and b': "''b.com'' \<noteq> []"
    and ab: "''a.com'' \<noteq> ''b.com''"
    by (simp_all add: state_a_def inputs_b_def)
  have ok: "setup_resolved
     (trace (snd (website_default (example_host rejects_nothing) inputs_b (start () state_a))))"
    by (simp add: example_run_a_b setup_resolved_def resolved_def)
  from unbind_follows_bind [OF run a a' b b' ab,
      where xs = "[Load ''@serverless/aws-s3'' ''websiteBucket'',
      DeployBucket ''websiteBucket'' ''x'' False ''us-west-2'',
      ConfigureBucketForHosting ''us-west-2'' ''x'',
      Load ''@serverless/aws-s3'' ''redirectBucket'',
      DeployBucket ''redirectBucket'' ''www.b.com'' False ''us-west-2'',
      ConfigureBucketForRedirect ''us-west-2'' ''www.b.com'' ''b.com'',
      ConfigureDomainForBucket (Some ''us-west-2'') ''b.com'' (Some ''us-west-2'') None,
      ConfigureDomainForBucket (Some ''us-west-2'') ''www.b.com'' (Some ''us-west-2'') None]"
      and client = "Some ''us-west-2''" and dn = "''a.com''" and reg = "Some ''eu-west-1''"
      and action = "''DELETE''"] a b ok
  show ?thesis
    by (simp add: example_run_a_b calls_def)
qed

text \<open>
  Claim C2. When the state records a domain (a non-empty string) that is not the requested
  one, also when none is requested, and no provisioning or DNS call is rejected, the run
  unbinds the alias records of that domain and of its \<open>www.\<close> variant, with the region of
  the state. Every call of a run that carries a mode flag is one of these two; so none is
  made when the state records no domain or the requested one.
\<close>

theorem drift_unbinds_old_domain:
  assumes "website_default h i (start w st) = (r, m')"
  shows "(state.domain st = Some old \<and> old \<noteq> [] \<and> state.domain st \<noteq> inputs.domain i \<and>
          setup_resolved (trace m') \<longrightarrow>
            ConfigureDomainForBucket (Some (config.region (resolve_inputs h st i))) old
              (state.region st) (Some ''DELETE'') \<in> set (calls m') \<and>
            ConfigureDomainForBucket (Some (config.region (resolve_inputs h st i))) (''www.'' @ old)
              (state.region st) (Some ''DELETE'') \<in> set (calls m')) \<and>
         (ConfigureDomainForBucket client dn reg (Some action) \<in> set (calls m') \<longrightarrow>
            truthy (state.domain st) \<and> state.domain st \<noteq> inputs.domain i \<and>
            action = ''DELETE'' \<and> reg = state.region st \<and>
            (state.domain st = Some dn \<or> (\<exists>d. state.domain st = Some d \<and> dn = ''www.'' @ d))) \<and>
         (\<not> truthy (state.domain st) \<or> state.domain st = inputs.domain i \<longrightarrow>
            ConfigureDomainForBucket client dn reg (Some action) \<notin> set (calls m'))"
proof -
  let ?cfg = "resolve_inputs h st i"
  have 1: "ConfigureDomainForBucket (Some (config.region ?cfg)) old (state.region st)
             (Some ''DELETE'') \<in> set (calls m') \<and>
           ConfigureDomainForBucket (Some (config.region ?cfg)) (''www.'' @ old) (state.region st)
             (Some ''DELETE'') \<in> set (calls m')"
    if "state.domain st = Some old" "old \<noteq> []" "state.domain st \<noteq> inputs.domain i"
      "setup_resolved (trace m')"
  proof -
    from that(3) have ne: "state.domain st \<noteq> config.domain ?cfg"
      by (simp add: resolve_domain)
    have "ConfigureDomainForBucket (Some (config.region ?cfg)) old (state.region st)
            (Some ''DELETE'') \<in> set (calls m')"
      by (rule reached [OF assms that(4)]) (rule plan_drift [OF that(1,2) ne], simp)
    moreover have "ConfigureDomainForBucket (Some (config.region ?cfg)) (''www.'' @ old)
            (state.region st) (Some ''DELETE'') \<in> set (calls m')"
      by (rule reached [OF assms that(4)]) (rule plan_drift [OF that(1,2) ne], simp)
    ultimately show ?thesis ..
  qed
  have 2: "truthy (state.domain st) \<and> state.domain st \<noteq> inputs.domain i \<and>
            action = ''DELETE'' \<and> reg = state.region st \<and>
            (state.domain st = Some dn \<or> (\<exists>d. state.domain st = Some d \<and> dn = ''www.'' @ d))"
    if "ConfigureDomainForBucket client dn reg (Some action) \<in> set (calls m')"
    using delete_call_origin [OF assms that] by (auto simp: truthy_def)
  from 1 2 show ?thesis by blast
qed

theorem drift_unbinds_old_domain_witness:
  "state.domain state_a = Some ''a.com'' \<and> state.domain state_a \<noteq> inputs.domain no_inputs \<and>
   setup_resolved
     (trace (snd (website_default (example_host rejects_nothing) no_inputs (start () state_a)))) \<and>
   ConfigureDomainForBucket (Some ''us-east-1'') ''a.com'' (Some ''eu-west-1'') (Some ''DELETE'')
     \<in> set (calls (snd (website_default (example_host rejects_nothing) no_inputs
          (start () state_a)))) \<and>
   ConfigureDomainForBucket (Some ''us-east-1'') ''www.a.com'' (Some ''eu-west-1'')
     (Some ''DELETE'')
     \<in> set (calls (snd (website_default (example_host rejects_nothing) no_inputs
          (start () state_a)))) \<and>
   \<not> truthy (state.domain state_x) \<and>
   ConfigureDomainForBucket (Some ''us-west-2'') ''a.com'' (Some ''eu-west-1'') (Some ''DELETE'')
     \<notin> set (calls (snd (website_default (example_host rejects_nothing) inputs_b
          (start () state_x))))"
proof -
  have run: "website_default (example_host rejects_nothing) no_inputs (start () state_a) =
      (fst (website_default (example_host rejects_nothing) no_inputs (start () state_a)),
       snd (website_default (example_host rejects_nothing) no_inputs (start () state_a)))"
    by simp
  have run': "website_default (example_host rejects_nothing) inputs_b (start () state_x) =
      (fst (website_default (example_host rejects_nothing) inputs_b (start () state_x)),
       snd (website_default (example_host rejects_nothing) inputs_b (start () state_x)))"
    by simp
  have a: "state.domain state_a = Some ''a.com''" "state.domain state_a \<noteq> inputs.domain no_inputs"
      "\<not> truthy (state.domain state_x)"
    by (simp_all add: state_a_def no_inputs_def state_x_def truthy_def)
  have ok: "setup_resolved
     (trace (snd (website_default (example_host rejects_nothing) no_inputs (start () state_a))))"
    by (simp add: run_defs example_defs setup_resolved_def resolved_def)
  have reg: "config.region (resolve_inputs (example_host rejects_nothing) state_a no_inputs)
      = ''us-east-1''" "state.region state_a = Some ''eu-west-1''"
    by (simp_all add: resolve_inputs_def no_inputs_def state_a_def Let_def)
  from drift_unbinds_old_domain [OF run, where old = "''a.com''"]
    drift_unbinds_old_domain [OF run', where client = "Some ''us-west-2''" and dn = "''a.com''"
      and reg = "Some ''eu-west-1''" and action = "''DELETE''"] a ok reg
  show ?thesis by simp
qed

text \<open>
  Claim C7. When a domain \<open>d\<close> is requested (a non-empty string) and no provisioning or
  DNS call is rejected, the run deploys the redirect bucket \<open>www.d\<close>, configures it to
  redirect to \<open>d\<close>, and binds the alias records of \<open>d\<close> and of \<open>www.d\<close>. When no domain is
  requested, no run loads or deploys the redirect bucket, configures a redirect, or binds
  an alias record.
\<close>

theorem domain_provisioning:
  assumes "website_default h i (start w st) = (r, m')"
  shows "(inputs.domain i = Some d \<and> d \<noteq> [] \<and> setup_resolved (trace m') \<longrightarrow>
            DeployBucket ''redirectBucket'' (''www.'' @ d) False
              (config.region (resolve_inputs h st i)) \<in> set (calls m') \<and>
            ConfigureBucketForRedirect (config.region (resolve_inputs h st i)) (''www.'' @ d) d
              \<in> set (calls m') \<and>
            ConfigureDomainForBucket (Some (config.region (resolve_inputs h st i))) d
              (Some (config.region (resolve_inputs h st i))) None \<in> set (calls m') \<and>
            ConfigureDomainForBucket (Some (config.region (resolve_inputs h st i))) (''www.'' @ d)
              (Some (config.region (resolve_inputs h st i))) None \<in> set (calls m')) \<and>
         (\<not> truthy (inputs.domain i) \<longrightarrow>
            Load c ''redirectBucket'' \<notin> set (calls m') \<and>
            DeployBucket ''redirectBucket'' n acc reg \<notin> set (calls m') \<and>
            ConfigureBucketForRedirect s3client bucket target \<notin> set (calls m') \<and>
            ConfigureDomainForBucket client dn reg' None \<notin> set (calls m'))"
proof (intro conjI impI)
  let ?cfg = "resolve_inputs h st i"
  {
    assume a: "inputs.domain i = Some d \<and> d \<noteq> [] \<and> setup_resolved (trace m')"
    then have d: "config.domain ?cfg = Some d" and ne: "d \<noteq> []"
      and ok: "setup_resolved (trace m')"
      by (simp_all add: resolve_domain)
    show "DeployBucket ''redirectBucket'' (''www.'' @ d) False (config.region ?cfg)
            \<in> set (calls m')"
      by (rule reached [OF assms ok]) (rule plan_domain [OF d ne], simp)
    show "ConfigureBucketForRedirect (config.region ?cfg) (''www.'' @ d) d \<in> set (calls m')"
      by (rule reached [OF assms ok]) (rule plan_domain [OF d ne], simp)
    show "ConfigureDomainForBucket (Some (config.region ?cfg)) d (Some (config.region ?cfg)) None
            \<in> set (calls m')"
      by (rule reached [OF assms ok]) (rule plan_domain [OF d ne], simp)
    show "ConfigureDomainForBucket (Some (config.region ?cfg)) (''www.'' @ d)
            (Some (config.region ?cfg)) None \<in> set (calls m')"
      by (rule reached [OF assms ok]) (rule plan_domain [OF d ne], simp)
  }
  {
    assume "\<not> truthy (inputs.domain i)"
    then have nd: "\<not> truthy (config.domain ?cfg)" by (simp add: resolve_domain)
    from calls_in_plan [OF assms] obtain name
      where sub: "set (calls m') \<subseteq> set (deploy_calls h ?cfg st name)" by blast
    from sub plan_no_domain(1) [OF nd, of c h st name]
    show "Load c ''redirectBucket'' \<notin> set (calls m')" by blast
    from sub plan_no_domain(2) [OF nd, of n acc reg h st name]
    show "DeployBucket ''redirectBucket'' n acc reg \<notin> set (calls m')" by blast
    from sub plan_no_domain(3) [OF nd, of s3client bucket target h st name]
    show "ConfigureBucketForRedirect s3client bucket target \<notin> set (calls m')" by blast
    from sub plan_no_domain(4) [OF nd, of client dn reg' h st name]
    show "ConfigureDomainForBucket client dn reg' None \<notin> set (calls m')" by blast
  }
qed

theorem domain_provisioning_witness:
  "inputs.domain inputs_b = Some ''b.com'' \<and>
   setup_resolved
     (trace (snd (website_default (example_host rejects_nothing) inputs_b (start () state_a)))) \<and>
   DeployBucket ''redirectBucket'' ''www.b.com'' False ''us-west-2''
     \<in> set (calls (snd (website_default (example_host rejects_nothing) inputs_b
          (start () state_a)))) \<and>
   ConfigureBucketForRedirect ''us-west-2'' ''www.b.com'' ''b.com''
     \<in> set (calls (snd (website_default (example_host rejects_nothing) inputs_b
          (start () state_a)))) \<and>
   ConfigureDomainForBucket (Some ''us-west-2'') ''b.com'' (Some ''us-west-2'') None
     \<in> set (calls (snd (website_default (example_host rejects_nothing) inputs_b
          (start () state_a)))) \<and>
   ConfigureDomainForBucket (Some ''us-west-2'') ''www.b.com'' (Some ''us-west-2'') None
     \<in> set (calls (snd (website_default (example_host rejects_nothing) inputs_b
          (start () state_a)))) \<and>
   \<not> truthy (inputs.domain no_inputs) \<and>
   ConfigureBucketForRedirect ''us-east-1'' ''www.b.com'' ''b.com''
     \<notin> set (calls (snd (website_default (example_host rejects_nothing) no_inputs
          (start () state_x))))"
proof -
  have run: "website_default (example_host rejects_nothing) inputs_b (start () state_a) =
      (fst (website_default (example_host rejects_nothing) inputs_b (start () state_a)),
       snd (website_default (example_host rejects_nothing) inputs_b (start () state_a)))"
    by simp
  have run': "website_default (example_host rejects_nothing) no_inputs (start () state_x) =
      (fst (website_default (example_host rejects_nothing) no_inputs (start () state_x)),
       snd (website_default (example_host rejects_nothing) no_inputs (start () state_x)))"
    by simp
  have b: "inputs.domain inputs_b = Some ''b.com''" "\<not> truthy (inputs.domain no_inputs)"
    by (simp_all add: inputs_b_def no_inputs_def truthy_def)
  have ok: "setup_resolved
     (trace (snd (website_default (example_host rejects_nothing) inputs_b (start () state_a))))"
    by (simp add: example_run_a_b setup_resolved_def resolved_def)
  have reg: "config.region (resolve_inputs (example_host rejects_nothing) state_a inputs_b)
      = ''us-west-2''"
    by (simp add: resolve_inputs_def inputs_b_def Let_def)
  from domain_provisioning [OF run, where d = "''b.com''"]
    domain_provisioning [OF run', where ?s3client = "''us-east-1''" and bucket = "''www.b.com''"
      and target = "''b.com''"] b ok reg
  show ?thesis by simp
qed

section \<open>The state of the store\<close>

text \<open>
  Claim C4. In every run, a call of \<open>save\<close> is the last call, it directly follows the
  upload, no other \<open>save\<close> precedes it, and every call before it was resolved. A run that
  throws, at whatever call, leaves the state of the store as it was; a run that returns has
  saved the state that the store then holds.
\<close>

theorem state_saved_once_at_end:
  assumes "website_default h i (start w st) = (r, m')"
  shows "(Save s \<in> set (calls m') \<longrightarrow>
            (\<exists>pre. calls m' =
                pre @ [Upload ''websiteBucket'' (dirToUploadPath (resolve_inputs h st i)), Save s] \<and>
              (\<forall>s'. Save s' \<notin> set pre)) \<and>
            list_all resolved (butlast (trace m'))) \<and>
         (r = Inl e \<longrightarrow> stored m' = st) \<and>
         (r = Inr out \<longrightarrow> Save (stored m') \<in> set (calls m'))"
proof (intro conjI impI)
  let ?cfg = "resolve_inputs h st i"
  let ?P = "bucket_calls ?cfg @ domain_calls ?cfg @ drift_calls ?cfg st @ env_calls h ?cfg @
     hook_calls ?cfg"
  from run_prefix [OF assms] obtain name zs
    where p: "deploy_calls h ?cfg st name = calls m' @ zs"
      and ok: "\<forall>out. r = Inr out \<longrightarrow> zs = [] \<and> list_all resolved (trace m')"
      and f: "\<forall>e. r = Inl e \<longrightarrow> failed_with (trace m') e \<and> stored m' = st"
    by blast
  {
    assume "r = Inl e"
    with f show "stored m' = st" by simp
  }
  {
    assume "r = Inr out"
    with assms have "website_default h i (start w st) = (Inr out, m')" by simp
    from default_success [OF this] show "Save (stored m') \<in> set (calls m')" by auto
  }
  {
    assume sv: "Save s \<in> set (calls m')"
    have "?P @ [Upload ''websiteBucket'' (dirToUploadPath ?cfg), Save (assign_state ?cfg name st)]
        = calls m' @ zs"
      using p by (simp only: plan_save)
    from last_call_is_save [OF this sv plan_no_early_save]
    have c: "calls m' = ?P @ [Upload ''websiteBucket'' (dirToUploadPath ?cfg),
        Save (assign_state ?cfg name st)]" and s: "Save s = Save (assign_state ?cfg name st)"
      by simp_all
    have "\<forall>s'. Save s' \<notin> set ?P" using plan_no_early_save [of _ ?cfg st h] by blast
    with c s show "\<exists>pre. calls m' = pre @ [Upload ''websiteBucket'' (dirToUploadPath ?cfg), Save s] \<and>
              (\<forall>s'. Save s' \<notin> set pre)"
      by (metis call.inject(10))
    show "list_all resolved (butlast (trace m'))"
    proof (cases r)
      case (Inr out)
      with ok show ?thesis by (simp add: resolved_butlast)
    next
      case (Inl e')
      with f show ?thesis by (simp add: failed_with_def)
    qed
  }
qed

theorem state_saved_once_at_end_witness:
  "Save \<lparr>state.bucketName = Some ''x'', state.domain = Some ''b.com'',
          state.region = Some ''us-west-2'',
          state.url = Some ''http://x.s3-website-us-west-2.amazonaws.com''\<rparr>
     \<in> set (calls (snd (website_default (example_host rejects_nothing) inputs_b
          (start () state_a)))) \<and>
   stored (snd (website_default (example_host rejects_nothing) inputs_b (start () state_a))) =
     \<lparr>state.bucketName = Some ''x'', state.domain = Some ''b.com'',
      state.region = Some ''us-west-2'',
      state.url = Some ''http://x.s3-website-us-west-2.amazonaws.com''\<rparr> \<and>
   list_all resolved (butlast (trace (snd (website_default (example_host rejects_nothing)
     inputs_b (start () state_a))))) \<and>
   fst (website_default (example_host rejects_exec) inputs_b (start () state_a)) =
     Inl (Error (hook_message ''npm run build'' ''boom'')) \<and>
   stored (snd (website_default (example_host rejects_exec) inputs_b (start () state_a))) =
     state_a"
proof -
  have run: "website_default (example_host rejects_nothing) inputs_b (start () state_a) =
      (fst (website_default (example_host rejects_nothing) inputs_b (start () state_a)),
       snd (website_default (example_host rejects_nothing) inputs_b (start () state_a)))"
    by simp
  have run': "website_default (example_host rejects_exec) inputs_b (start () state_a) =
      (fst (website_default (example_host rejects_exec) inputs_b (start () state_a)),
       snd (website_default (example_host rejects_exec) inputs_b (start () state_a)))"
    by simp
  have ok: "fst (website_default (example_host rejects_nothing) inputs_b (start () state_a)) =
      Inr \<lparr>outputs.url = ''http://x.s3-website-us-west-2.amazonaws.com'',
           outputs.env = [(''API'', ''https://x'')],
           outputs.domain = Some ''http://b.com''\<rparr>"
    by (simp add: example_run_a_b)
  have bad: "fst (website_default (example_host rejects_exec) inputs_b (start () state_a)) =
      Inl (Error (hook_message ''npm run build'' ''boom''))"
    by (simp add: example_run_hook_fails hook_message_def)
  have sto: "stored (snd (website_default (example_host rejects_nothing) inputs_b
      (start () state_a))) =
     \<lparr>state.bucketName = Some ''x'', state.domain = Some ''b.com'',
      state.region = Some ''us-west-2'',
      state.url = Some ''http://x.s3-website-us-west-2.amazonaws.com''\<rparr>"
    by (simp add: example_run_a_b)
  from state_saved_once_at_end [OF run, where out = "\<lparr>outputs.url =
        ''http://x.s3-website-us-west-2.amazonaws.com'',
        outputs.env = [(''API'', ''https://x'')], outputs.domain = Some ''http://b.com''\<rparr>"
      and s = "\<lparr>state.bucketName = Some ''x'', state.domain = Some ''b.com'',
        state.region = Some ''us-west-2'',
        state.url = Some ''http://x.s3-website-us-west-2.amazonaws.com''\<rparr>"]
    state_saved_once_at_end [OF run', where e = "Error (hook_message ''npm run build'' ''boom'')"]
    ok bad sto
  show ?thesis by simp
qed

section \<open>The build hook\<close>

text \<open>
  Claim C5. When the command of the build hook is rejected with the captured standard error
  \<open>s\<close>, the run throws \<open>new Error\<close> with the message of line 118, which contains the
  command and \<open>s\<close>; the command is the hook of the inputs, run in \<open>code.root\<close>; the run
  makes no upload call and no save call, and the state of the store is as before.
\<close>

theorem failing_hook_aborts_before_upload:
  assumes "website_default h i (start w st) = (r, m')"
    and "(Exec command dir, Fail s) \<in> set (trace m')"
  shows "r = Inl (Error (''Failed building website via '' @ [CHR 0x22] @ command @ [CHR 0x22] @
                 '' due to the following error: '' @ [CHR 0x22] @ s @ [CHR 0x22])) \<and>
         config.hook (resolve_inputs h st i) = Some command \<and>
         dir = config.root (resolve_inputs h st i) \<and>
         Upload a d \<notin> set (calls m') \<and> Save s' \<notin> set (calls m') \<and> stored m' = st"
proof -
  let ?cfg = "resolve_inputs h st i"
  have nr: "\<not> resolved (Exec command dir, Fail s)" by (simp add: resolved_def)
  from run_shape [OF assms(1)] show ?thesis
  proof (elim disjE exE conjE)
    fix out name
    assume "list_all resolved (trace m')"
    with assms(2) nr show ?thesis by (auto simp: list_all_iff)
  next
    fix e name pre c s0 zs
    assume r: "r = Inl e" and t: "trace m' = pre @ [(c, Fail s0)]"
      and ok: "list_all resolved pre" and e: "e = thrown c s0" and sto: "stored m' = st"
      and p: "deploy_calls h ?cfg st name = map fst pre @ c # zs"
    from assms(2) t ok nr have c: "c = Exec command dir" and s0: "s0 = s"
      by (auto simp: list_all_iff)
    have cs: "calls m' = map fst pre @ [c]" unfolding calls_def t by simp
    have so: "sorted (map stage (map fst pre @ c # zs))"
      using sorted_plan [of h ?cfg st name] by (simp only: p)
    have "Exec command dir \<in> set (deploy_calls h ?cfg st name)"
      unfolding p c by simp
    from plan_exec [OF this]
    have hk: "config.hook ?cfg = Some command" and dir: "dir = config.root ?cfg" by simp_all
    have up: "Upload a d \<notin> set (calls m')"
    proof
      assume "Upload a d \<in> set (calls m')"
      with cs c have "Upload a d \<in> set (map fst pre)" by simp
      from later_stage_not_done [OF so this] c show False by simp
    qed
    have sv: "Save s' \<notin> set (calls m')"
    proof
      assume "Save s' \<in> set (calls m')"
      with cs c have "Save s' \<in> set (map fst pre)" by simp
      from later_stage_not_done [OF so this] c show False by simp
    qed
    from r e c s0 have "r = Inl (Error (hook_message command s))" by simp
    with hk dir up sv sto show ?thesis by (simp add: hook_message_def)
  qed
qed

theorem failing_hook_aborts_before_upload_witness:
  "(Exec ''npm run build'' ''/srv/site'', Fail ''boom'')
     \<in> set (trace (snd (website_default (example_host rejects_exec) inputs_b
          (start () state_a)))) \<and>
   fst (website_default (example_host rejects_exec) inputs_b (start () state_a)) =
     Inl (Error (''Failed building website via '' @ [CHR 0x22] @ ''npm run build'' @ [CHR 0x22] @
            '' due to the following error: '' @ [CHR 0x22] @ ''boom'' @ [CHR 0x22])) \<and>
   Upload ''websiteBucket'' ''/srv/site/dist''
     \<notin> set (calls (snd (website_default (example_host rejects_exec) inputs_b
          (start () state_a))))"
proof -
  have run: "website_default (example_host rejects_exec) inputs_b (start () state_a) =
      (fst (website_default (example_host rejects_exec) inputs_b (start () state_a)),
       snd (website_default (example_host rejects_exec) inputs_b (start () state_a)))"
    by simp
  have ex: "(Exec ''npm run build'' ''/srv/site'', Fail ''boom'')
     \<in> set (trace (snd (website_default (example_host rejects_exec) inputs_b
          (start () state_a))))"
    by (simp add: example_run_hook_fails)
  from failing_hook_aborts_before_upload [OF run ex, where a = "''websiteBucket''"
      and d = "''/srv/site/dist''"] ex
  show ?thesis by simp
qed

section \<open>The environment bundle\<close>

text \<open>
  Claim C8. When \<open>env\<close> is supplied with at least one entry (\<open>code.root\<close> being a non-empty
  string, as it is by C10) and no provisioning or DNS call is rejected, the run writes the
  file \<open>env.js\<close> joined to \<open>code.root\<close>; every file a run writes is that one, for a
  non-empty \<open>env\<close>, so that none is written when \<open>env\<close> is absent or empty. The content is
  the line \<open>window.env = {};\<close> followed by one line \<open>window.env.KEY = VALUE;\<close> per entry,
  with the value as \<open>JSON.stringify\<close> renders it; for the single entry \<open>API\<close> it is the
  second equation.
\<close>

theorem env_bundle_written:
  assumes "website_default h i (start w st) = (r, m')"
  shows "(inputs.env i = Some e \<and> e \<noteq> [] \<and> config.root (resolve_inputs h st i) \<noteq> [] \<and>
          setup_resolved (trace m') \<longrightarrow>
            WriteFile (path_join h (config.root (resolve_inputs h st i)) ''env.js'')
              (env_script h e) \<in> set (calls m')) \<and>
         (WriteFile p c \<in> set (calls m') \<longrightarrow>
            (\<exists>e'. inputs.env i = Some e' \<and> e' \<noteq> [] \<and>
               p = path_join h (config.root (resolve_inputs h st i)) ''env.js'' \<and>
               c = env_script h e')) \<and>
         env_script h e =
           ''window.env = {};\<newline>'' @
           concat (map (\<lambda>(k, v). ''window.env.'' @ k @ '' = '' @ JSON_stringify h v @ '';\<newline>'') e) \<and>
         env_script h [(''API'', v)] =
           ''window.env = {};\<newline>window.env.API = '' @ JSON_stringify h v @ '';\<newline>''"
proof (intro conjI impI)
  let ?cfg = "resolve_inputs h st i"
  {
    assume a: "inputs.env i = Some e \<and> e \<noteq> [] \<and> config.root ?cfg \<noteq> [] \<and>
          setup_resolved (trace m')"
    then have e: "config.env ?cfg = Some e" and ne: "e \<noteq> []" and rt: "config.root ?cfg \<noteq> []"
      and ok: "setup_resolved (trace m')"
      by (simp_all add: resolve_env)
    show "WriteFile (path_join h (config.root ?cfg) ''env.js'') (env_script h e) \<in> set (calls m')"
      by (rule reached_write [OF assms ok]) (rule plan_env [OF e ne rt])
  }
  {
    assume wr: "WriteFile p c \<in> set (calls m')"
    from calls_in_plan [OF assms] obtain name
      where "set (calls m') \<subseteq> set (deploy_calls h ?cfg st name)" by blast
    with wr have "WriteFile p c \<in> set (deploy_calls h ?cfg st name)" by blast
    from plan_write [OF this]
    show "\<exists>e'. inputs.env i = Some e' \<and> e' \<noteq> [] \<and>
               p = path_join h (config.root ?cfg) ''env.js'' \<and> c = env_script h e'"
      by (auto simp: resolve_env)
  }
  show "env_script h e =
           ''window.env = {};\<newline>'' @
           concat (map (\<lambda>(k, v). ''window.env.'' @ k @ '' = '' @ JSON_stringify h v @ '';\<newline>'') e)"
    by (rule env_script_concat)
  show "env_script h [(''API'', v)] =
           ''window.env = {};\<newline>window.env.API = '' @ JSON_stringify h v @ '';\<newline>''"
    by (simp add: env_script_def)
qed

theorem env_bundle_written_witness:
  "inputs.env inputs_b = Some [(''API'', ''https://x'')] \<and>
   config.root (resolve_inputs (example_host rejects_exec) state_a inputs_b) = ''/srv/site'' \<and>
   setup_resolved
     (trace (snd (website_default (example_host rejects_exec) inputs_b (start () state_a)))) \<and>
   WriteFile ''/srv/site/env.js''
       (''window.env = {};\<newline>window.env.API = '' @ [CHR 0x22] @ ''https://x'' @ [CHR 0x22] @
        '';\<newline>'')
     \<in> set (calls (snd (website_default (example_host rejects_exec) inputs_b
          (start () state_a)))) \<and>
   inputs.env no_inputs = None \<and>
   WriteFile ''/home/site/env.js'' ''window.env = {};\<newline>''
     \<notin> set (calls (snd (website_default (example_host rejects_nothing) no_inputs
          (start () state_x))))"
proof -
  have run: "website_default (example_host rejects_exec) inputs_b (start () state_a) =
      (fst (website_default (example_host rejects_exec) inputs_b (start () state_a)),
       snd (website_default (example_host rejects_exec) inputs_b (start () state_a)))"
    by simp
  have run': "website_default (example_host rejects_nothing) no_inputs (start () state_x) =
      (fst (website_default (example_host rejects_nothing) no_inputs (start () state_x)),
       snd (website_default (example_host rejects_nothing) no_inputs (start () state_x)))"
    by simp
  have e: "inputs.env inputs_b = Some [(''API'', ''https://x'')]" "inputs.env no_inputs = None"
    by (simp_all add: inputs_b_def no_inputs_def)
  have rt: "config.root (resolve_inputs (example_host rejects_exec) state_a inputs_b)
      = ''/srv/site''"
    by (simp add: resolve_inputs_def inputs_b_def example_host_def Let_def)
  have ok: "setup_resolved
     (trace (snd (website_default (example_host rejects_exec) inputs_b (start () state_a))))"
    by (simp add: example_run_hook_fails setup_resolved_def resolved_def)
  have js: "JSON_stringify (example_host rejects_exec) ''https://x'' =
      [CHR 0x22] @ ''https://x'' @ [CHR 0x22]"
    "path_join (example_host rejects_exec) ''/srv/site'' ''env.js'' = ''/srv/site/env.js''"
    by (simp_all add: example_defs)
  note w = env_bundle_written [OF run, where e = "[(''API'', ''https://x'')]"
      and v = "''https://x''" and p = "''/srv/site/env.js''" and c = "[]"]
  from w [THEN conjunct1] e rt ok have A: "WriteFile ''/srv/site/env.js''
      (env_script (example_host rejects_exec) [(''API'', ''https://x'')])
     \<in> set (calls (snd (website_default (example_host rejects_exec) inputs_b
          (start () state_a))))"
    by (simp add: js)
  from w [THEN conjunct2, THEN conjunct2, THEN conjunct2] have EQ: "env_script (example_host rejects_exec) [(''API'', ''https://x'')] =
      ''window.env = {};\<newline>window.env.API = '' @ [CHR 0x22] @ ''https://x'' @ [CHR 0x22] @
        '';\<newline>''"
    by (simp add: js)
  from env_bundle_written [OF run', where p = "''/home/site/env.js''"
      and c = "''window.env = {};\<newline>''" and e = "[]" and v = "[]"] e
  have B: "WriteFile ''/home/site/env.js'' ''window.env = {};\<newline>''
     \<notin> set (calls (snd (website_default (example_host rejects_nothing) no_inputs
          (start () state_x))))"
    by simp
  from A [unfolded EQ] B e rt ok show ?thesis by simp
qed

section \<open>State and outputs of a deploy that returns\<close>



section \<open>Remove\<close>

text \<open>
  Claim C6. A \<open>remove\<close> that returns, on a state with a domain \<open>d\<close> (a non-empty string),
  has made exactly these calls, in this order: load and remove the website bucket, unbind
  \<open>d\<close> and \<open>www.d\<close> with the region of the state, load and remove the redirect bucket,
  save the empty state; the store then holds the empty state. On a state without a domain
  the calls of a \<open>remove\<close> that returns are: load and remove the website bucket, save the
  empty state; and the calls of any \<open>remove\<close>, returning or not, are a prefix of these
  three, so that it makes no DNS call and no call for the redirect bucket.
\<close>

theorem remove_workflow:
  assumes "website_remove h (start w st) = (r, m')"
  shows "(r = Inr u \<and> state.domain st = Some d \<and> d \<noteq> [] \<longrightarrow>
            calls m' =
              [Load ''@serverless/aws-s3'' ''websiteBucket'', RemoveBucket ''websiteBucket'',
               ConfigureDomainForBucket (state.region st) d (state.region st) (Some ''DELETE''),
               ConfigureDomainForBucket (state.region st) (''www.'' @ d) (state.region st)
                 (Some ''DELETE''),
               Load ''@serverless/aws-s3'' ''redirectBucket'', RemoveBucket ''redirectBucket'',
               Save empty_state] \<and>
            stored m' = empty_state) \<and>
         (r = Inr u \<and> \<not> truthy (state.domain st) \<longrightarrow>
            calls m' =
              [Load ''@serverless/aws-s3'' ''websiteBucket'', RemoveBucket ''websiteBucket'',
               Save empty_state] \<and>
            stored m' = empty_state) \<and>
         (\<not> truthy (state.domain st) \<longrightarrow>
            prefix (calls m')
              [Load ''@serverless/aws-s3'' ''websiteBucket'', RemoveBucket ''websiteBucket'',
               Save empty_state])"
proof (intro conjI impI)
  note rr = remove_run [OF assms]
  {
    assume a: "r = Inr u \<and> state.domain st = Some d \<and> d \<noteq> []"
    with rr have "calls m' = remove_calls st" by simp
    with a show "calls m' =
              [Load ''@serverless/aws-s3'' ''websiteBucket'', RemoveBucket ''websiteBucket'',
               ConfigureDomainForBucket (state.region st) d (state.region st) (Some ''DELETE''),
               ConfigureDomainForBucket (state.region st) (''www.'' @ d) (state.region st)
                 (Some ''DELETE''),
               Load ''@serverless/aws-s3'' ''redirectBucket'', RemoveBucket ''redirectBucket'',
               Save empty_state]"
      by (simp add: remove_calls_def)
    from a assms have "website_remove h (start w st) = (Inr u, m')" by simp
    then show "stored m' = empty_state" by (rule remove_success)
  }
  {
    assume a: "r = Inr u \<and> \<not> truthy (state.domain st)"
    with rr have "calls m' = remove_calls st" by simp
    with a show "calls m' =
              [Load ''@serverless/aws-s3'' ''websiteBucket'', RemoveBucket ''websiteBucket'',
               Save empty_state]"
      by (simp add: remove_calls_def truthy_def split: option.splits)
    from a assms have "website_remove h (start w st) = (Inr u, m')" by simp
    then show "stored m' = empty_state" by (rule remove_success)
  }
  {
    assume a: "\<not> truthy (state.domain st)"
    then have rc: "remove_calls st =
         [Load ''@serverless/aws-s3'' ''websiteBucket'', RemoveBucket ''websiteBucket'',
          Save empty_state]"
      by (simp add: remove_calls_def truthy_def split: option.splits)
    show "prefix (calls m')
              [Load ''@serverless/aws-s3'' ''websiteBucket'', RemoveBucket ''websiteBucket'',
               Save empty_state]"
    proof (cases r)
      case (Inl e)
      with rr rc show ?thesis by simp
    next
      case (Inr x)
      with rr rc show ?thesis by simp
    qed
  }
qed

theorem remove_workflow_witness:
  "fst (website_remove (example_host rejects_nothing) (start () state_a)) = Inr () \<and>
   state.domain state_a = Some ''a.com'' \<and>
   calls (snd (website_remove (example_host rejects_nothing) (start () state_a))) =
     [Load ''@serverless/aws-s3'' ''websiteBucket'', RemoveBucket ''websiteBucket'',
      ConfigureDomainForBucket (Some ''eu-west-1'') ''a.com'' (Some ''eu-west-1'')
        (Some ''DELETE''),
      ConfigureDomainForBucket (Some ''eu-west-1'') ''www.a.com'' (Some ''eu-west-1'')
        (Some ''DELETE''),
      Load ''@serverless/aws-s3'' ''redirectBucket'', RemoveBucket ''redirectBucket'',
      Save empty_state] \<and>
   stored (snd (website_remove (example_host rejects_nothing) (start () state_a))) =
     empty_state \<and>
   fst (website_remove (example_host rejects_nothing) (start () state_x)) = Inr () \<and>
   \<not> truthy (state.domain state_x) \<and>
   calls (snd (website_remove (example_host rejects_nothing) (start () state_x))) =
     [Load ''@serverless/aws-s3'' ''websiteBucket'', RemoveBucket ''websiteBucket'',
      Save empty_state] \<and>
   stored (snd (website_remove (example_host rejects_nothing) (start () state_x))) =
     empty_state"
proof -
  have run: "website_remove (example_host rejects_nothing) (start () state_a) =
      (fst (website_remove (example_host rejects_nothing) (start () state_a)),
       snd (website_remove (example_host rejects_nothing) (start () state_a)))"
    by simp
  have run': "website_remove (example_host rejects_nothing) (start () state_x) =
      (fst (website_remove (example_host rejects_nothing) (start () state_x)),
       snd (website_remove (example_host rejects_nothing) (start () state_x)))"
    by simp
  have r: "fst (website_remove (example_host rejects_nothing) (start () state_a)) = Inr ()"
    "fst (website_remove (example_host rejects_nothing) (start () state_x)) = Inr ()"
    by (simp_all add: example_remove_a example_remove_x)
  have d: "state.domain state_a = Some ''a.com''" "state.region state_a = Some ''eu-west-1''"
    "\<not> truthy (state.domain state_x)"
    by (simp_all add: state_a_def state_x_def truthy_def)
  from remove_workflow [OF run, where u = "()" and d = "''a.com''"]
    remove_workflow [OF run', where u = "()" and d = "[]"] r d
  show ?thesis by simp
qed

end
